theory Spec2Isabelle
  imports Complex_Main
begin

section \<open>Swarm traffic: data model\<close>

text \<open>
  The development embeds \<^verbatim>\<open>SwarmTrafficAction\<close> (OSCGlobalAction.cpp). Values of type
  \<^verbatim>\<open>double\<close> are taken as reals (finite doubles, no rounding) everywhere but in the
  angular loop of the ellipse sampler, whose number of iterations is decided by rounding
  and which is computed in binary64; \<^verbatim>\<open>int\<close> and
  \<^verbatim>\<open>size_t\<close> values as mathematical integers: every count of the action stays far
  below \<open>2^31\<close>, and the mixed subtractions that can go below zero
  (\<^verbatim>\<open>numberOfVehicles - spawnedV.size()\<close>, \<^verbatim>\<open>nCarsToSpawn - sols.size()\<close>) wrap to the
  same negative \<^verbatim>\<open>int\<close>.
\<close>

definition USELESS_THRESHOLD :: int where
  "USELESS_THRESHOLD = 5"

definition VHEICLE_DISTANCE :: real where
  "VHEICLE_DISTANCE = 12"

definition TIME_INTERVAL :: real where
  "TIME_INTERVAL = 1 / 10"

definition M_PI :: real where
  "M_PI = pi"

text \<open>\<^verbatim>\<open>STGeometry::Point {x, y, h}\<close>.\<close>

record Point =
  pt_x :: real
  pt_y :: real
  pt_h :: real

text \<open>
  \<^verbatim>\<open>roadmanager::Position\<close>, by its getters: the inertial pose and the track
  position (road id, lane id, arc-length).
\<close>

record Position =
  GetX :: real
  GetY :: real
  GetH :: real
  GetTrackId :: int
  GetLaneId :: int
  GetS :: real
  GetOffset :: real

text \<open>
  Modelled from the spec: the road model (\<^verbatim>\<open>roadmanager\<close>, not among the sources), read
  only: "enumerate roads; per road enumerate geometry spans tagged {unknown, line, other};
  evaluate a span at an arc-length to (x, y, heading); query driving-lane count at an
  arc-length; fetch a lane by index and its signed id; convert (x, y, heading) to
  (roadId, laneId, s)". A lane fetched by index is given by its id, \<open>None\<close> being the
  NULL lane; \<open>XYZH2Track\<close> is the conversion behind \<^verbatim>\<open>Position::XYZH2TrackPos\<close>.
\<close>

datatype GeometryType = GEOMETRY_TYPE_UNKNOWN | GEOMETRY_TYPE_LINE | GEOMETRY_TYPE_OTHER

record Geometry =
  GetType :: GeometryType
  GetGeometryS :: real
  GetLength :: real
  EvaluateDS :: "real \<Rightarrow> real \<times> real \<times> real"

record Road =
  GetId :: int
  GetGeometries :: "Geometry list"
  GetNumberOfDrivingLanes :: "real \<Rightarrow> nat"
  GetDrivingLaneByIdx :: "real \<Rightarrow> int \<Rightarrow> int option"

record OpenDrive =
  GetRoads :: "Road list"
  XYZH2Track :: "real \<Rightarrow> real \<Rightarrow> real \<Rightarrow> real \<Rightarrow> int \<times> int \<times> real"

text \<open>
  \<^verbatim>\<open>Triangle\<close> with its vertices, its arc-length interval and the geometry span it was
  cut from (none for a triangle of the ellipse). A bounding box of the vector \<^verbatim>\<open>vec\<close> is given by the triangle it owns.
\<close>

record Triangle =
  tri_a :: Point
  tri_b :: Point
  tri_c :: Point
  sI :: real
  sF :: real
  sourceSpan :: "Geometry option"

text \<open>
  \<^verbatim>\<open>Object\<close> / \<^verbatim>\<open>Vehicle\<close>: the members \<^verbatim>\<open>id_\<close>, \<^verbatim>\<open>name_\<close>, \<^verbatim>\<open>pos_\<close>,
  \<^verbatim>\<open>speed_\<close>, \<^verbatim>\<open>model_filepath_\<close>; the controller of a spawned vehicle is always NULL.
\<close>

record Object =
  obj_id :: int
  obj_name :: string
  obj_pos :: Position
  obj_speed :: real
  obj_model_filepath :: string

text \<open>\<^verbatim>\<open>SpawnInfo\<close>: the lifecycle record of one spawned vehicle.\<close>

record SpawnInfo =
  vehicleID :: int
  outMidAreaCount :: int
  roadID :: int
  lane :: int
  spawnSimTime :: real

text \<open>
  The members of \<^verbatim>\<open>SwarmTrafficAction\<close> and the entity repository it points to. The
  road tree is given by the triangles of its leaves.
\<close>

record SwarmTrafficAction =
  innerRadius :: real
  semiMajorAxis :: real
  semiMinorAxis :: real
  numberOfVehicles :: int
  velocity :: real
  midSMjA :: real
  midSMnA :: real
  lastTime :: real
  minSize :: real
  centralObject :: Object
  rTree :: "Triangle list"
  entities :: "Object list"
  spawnedV :: "SpawnInfo list"

section \<open>Entity repository\<close>

text \<open>
  Modelled from the spec: the entity repository (\<^verbatim>\<open>Entities\<close>, not among the sources):
  "add an object, receiving an assigned id; remove by name/id; look up by id". The
  repository is the list of its objects; a look-up that finds nothing is the NULL pointer.
\<close>

definition GetObjectById :: "Object list \<Rightarrow> int \<Rightarrow> Object option" where
  "GetObjectById ents i = find (\<lambda>ob. obj_id ob = i) ents"

definition removeObject :: "Object list \<Rightarrow> string \<Rightarrow> Object list" where
  "removeObject ents nm = filter (\<lambda>ob. obj_name ob \<noteq> nm) ents"

text \<open>
  Modelled from the spec: the id an added object receives. Any id not in use serves; the
  model takes the successor of the largest id in use (0 for an empty repository).
\<close>

definition getNewId :: "Object list \<Rightarrow> int" where
  "getNewId ents = fold (\<lambda>ob m. max m (obj_id ob + 1)) ents 0"

definition addObject :: "Object list \<Rightarrow> Object \<Rightarrow> int \<times> Object list" where
  "addObject ents ob = (let i = getNewId ents in (i, ents @ [ob\<lparr>obj_id := i\<rparr>]))"

section \<open>Despawn\<close>

text \<open>
  Modelled from the spec: the "signed ellipse-membership" of a point \<open>(x, y)\<close> against the
  ellipse centred at \<open>(h, k)\<close>, rotated by \<open>A\<close>, with semi-axes \<open>SMjA\<close> and \<open>SMnA\<close>
  (\<^verbatim>\<open>STGeometry::ellipse\<close>, OSCSwarmTrafficGeometry.hpp, not among the sources): negative
  inside, zero on the boundary, positive outside. \<open>despawn\<close> takes the membership function
  as a parameter; this one instantiates it.
\<close>

definition ellipse :: "real \<Rightarrow> real \<Rightarrow> real \<Rightarrow> real \<Rightarrow> real \<Rightarrow> real \<Rightarrow> real \<Rightarrow> real" where
  "ellipse h k A SMjA SMnA x y =
     (((x - h) * cos A + (y - k) * sin A) / SMjA)\<^sup>2
     + (((x - h) * sin A - (y - k) * cos A) / SMnA)\<^sup>2 - 1"

text \<open>
  The body of the \<^verbatim>\<open>while\<close> loop of \<^verbatim>\<open>despawn\<close>, lines 405 to 413: from the two
  memberships \<open>e0\<close> (outer ellipse) and \<open>e1\<close> (mid ellipse) to the updated record and the
  flag \<^verbatim>\<open>deleteVehicle\<close>.
\<close>

definition despawnVerdict :: "real \<Rightarrow> real \<Rightarrow> SpawnInfo \<Rightarrow> SpawnInfo \<times> bool" where
  "despawnVerdict e0 e1 info =
     (if e0 > 1 / 1000 then (info, True)
      else if e1 > 1 / 1000 \<or> (0 \<le> e1 \<and> e1 \<le> 1 / 1000) then
        (let info' = info\<lparr>outMidAreaCount := outMidAreaCount info + 1\<rparr>
         in (info', outMidAreaCount info' > USELESS_THRESHOLD))
      else (info\<lparr>outMidAreaCount := 0\<rparr>, False))"

text \<open>
  The locals \<^verbatim>\<open>e0\<close> and \<^verbatim>\<open>e1\<close> of the loop: the membership of the vehicle's position
  against the outer ellipse and against the mid ellipse, both centred and oriented on the
  central object.
\<close>

definition despawn_e0 ::
  "(real \<Rightarrow> real \<Rightarrow> real \<Rightarrow> real \<Rightarrow> real \<Rightarrow> real \<Rightarrow> real \<Rightarrow> real) \<Rightarrow> SwarmTrafficAction \<Rightarrow> Object \<Rightarrow> real" where
  "despawn_e0 ell a vehicle =
     ell (GetX (obj_pos (centralObject a))) (GetY (obj_pos (centralObject a)))
       (GetH (obj_pos (centralObject a))) (semiMajorAxis a) (semiMinorAxis a)
       (GetX (obj_pos vehicle)) (GetY (obj_pos vehicle))"

definition despawn_e1 ::
  "(real \<Rightarrow> real \<Rightarrow> real \<Rightarrow> real \<Rightarrow> real \<Rightarrow> real \<Rightarrow> real \<Rightarrow> real) \<Rightarrow> SwarmTrafficAction \<Rightarrow> Object \<Rightarrow> real" where
  "despawn_e1 ell a vehicle =
     ell (GetX (obj_pos (centralObject a))) (GetY (obj_pos (centralObject a)))
       (GetH (obj_pos (centralObject a))) (midSMjA a) (midSMnA a)
       (GetX (obj_pos vehicle)) (GetY (obj_pos vehicle))"

text \<open>
  The loop over \<^verbatim>\<open>spawnedV\<close>. The result is the list of the records kept, the
  repository and the number of records removed; \<open>None\<close> is the dereference of the NULL
  pointer that \<^verbatim>\<open>GetObjectById\<close> returns for an id the repository does not hold.
\<close>

fun despawnLoop ::
  "(real \<Rightarrow> real \<Rightarrow> real \<Rightarrow> real \<Rightarrow> real \<Rightarrow> real \<Rightarrow> real \<Rightarrow> real) \<Rightarrow> SwarmTrafficAction
    \<Rightarrow> SpawnInfo list \<Rightarrow> Object list \<Rightarrow> (SpawnInfo list \<times> Object list \<times> int) option" where
  "despawnLoop ell a [] ents = Some ([], ents, 0)"
| "despawnLoop ell a (info # rest) ents =
     (case GetObjectById ents (vehicleID info) of
        None \<Rightarrow> None
      | Some vehicle \<Rightarrow>
          (case despawnVerdict (despawn_e0 ell a vehicle) (despawn_e1 ell a vehicle) info of
             (info', deleteVehicle) \<Rightarrow>
               if deleteVehicle then
                 (case despawnLoop ell a rest (removeObject ents (obj_name vehicle)) of
                    None \<Rightarrow> None
                  | Some (kept, ents', count) \<Rightarrow> Some (kept, ents', count + 1))
               else
                 (case despawnLoop ell a rest ents of
                    None \<Rightarrow> None
                  | Some (kept, ents', count) \<Rightarrow> Some (info' # kept, ents', count))))"

definition despawn ::
  "(real \<Rightarrow> real \<Rightarrow> real \<Rightarrow> real \<Rightarrow> real \<Rightarrow> real \<Rightarrow> real \<Rightarrow> real) \<Rightarrow> real
    \<Rightarrow> SwarmTrafficAction \<Rightarrow> (SwarmTrafficAction \<times> int) option" where
  "despawn ell simTime a =
     (case despawnLoop ell a (spawnedV a) (entities a) of
        None \<Rightarrow> None
      | Some (kept, ents', count) \<Rightarrow> Some (a\<lparr>entities := ents', spawnedV := kept\<rparr>, count))"

text \<open>
  What one evaluation does to one record, judged against a repository: \<open>None\<close> when the
  record is erased, the updated record otherwise. The loop is characterised by it below.
\<close>

definition despawnOutcome ::
  "(real \<Rightarrow> real \<Rightarrow> real \<Rightarrow> real \<Rightarrow> real \<Rightarrow> real \<Rightarrow> real \<Rightarrow> real) \<Rightarrow> SwarmTrafficAction
    \<Rightarrow> Object list \<Rightarrow> SpawnInfo \<Rightarrow> SpawnInfo option" where
  "despawnOutcome ell a ents info =
     (case GetObjectById ents (vehicleID info) of
        None \<Rightarrow> None
      | Some v \<Rightarrow>
          (case despawnVerdict (despawn_e0 ell a v) (despawn_e1 ell a v) info of
             (info', del) \<Rightarrow> if del then None else Some info'))"

section \<open>Road network\<close>

text \<open>
  Modelled from the spec: the look-up of a road by its id ("enumerate roads") in the road
  model (\<^verbatim>\<open>roadmanager\<close>, not among the sources); \<open>None\<close> is the NULL road.
\<close>

definition GetRoadById :: "OpenDrive \<Rightarrow> int \<Rightarrow> Road option" where
  "GetRoadById odr i = find (\<lambda>r. GetId r = i) (GetRoads odr)"

text \<open>
  Modelled from the spec: the three setters of \<^verbatim>\<open>roadmanager::Position\<close> that the action
  calls. \<open>XYZH2TrackPos\<close> and \<open>SetInertiaPos\<close> (with its flag set, as \<open>createVehicle\<close>
  calls it) store the inertial pose and the track position the road network converts it
  to; \<open>SetLanePos\<close> stores the "track-relative lane placement" and keeps the inertial
  heading.
\<close>

definition newPosition :: Position where
  "newPosition =
     \<lparr>GetX = 0, GetY = 0, GetH = 0, GetTrackId = -1, GetLaneId = 0, GetS = 0, GetOffset = 0\<rparr>"

definition XYZH2TrackPos :: "OpenDrive \<Rightarrow> Position \<Rightarrow> real \<Rightarrow> real \<Rightarrow> real \<Rightarrow> real \<Rightarrow> Position" where
  "XYZH2TrackPos odr p x3 y3 z3 h3 =
     (case XYZH2Track odr x3 y3 z3 h3 of
        (rid, lid, s) \<Rightarrow>
          p\<lparr>GetX := x3, GetY := y3, GetH := h3, GetTrackId := rid, GetLaneId := lid, GetS := s\<rparr>)"

definition SetInertiaPos :: "OpenDrive \<Rightarrow> Position \<Rightarrow> real \<Rightarrow> real \<Rightarrow> real \<Rightarrow> Position" where
  "SetInertiaPos odr p x3 y3 h3 = XYZH2TrackPos odr p x3 y3 0 h3"

definition SetLanePos :: "Position \<Rightarrow> int \<Rightarrow> int \<Rightarrow> real \<Rightarrow> real \<Rightarrow> Position" where
  "SetLanePos p track_id lane_id s offset =
     p\<lparr>GetTrackId := track_id, GetLaneId := lane_id, GetS := s, GetOffset := offset\<rparr>"

section \<open>Random engine\<close>

text \<open>
  The engines (\<^verbatim>\<open>std::mt19937\<close> seeded from \<^verbatim>\<open>std::random_device\<close>, and \<^verbatim>\<open>rand\<close>
  behind \<^verbatim>\<open>std::random_shuffle\<close>) are a tape of raw draws, read as 0 once it is used up;
  every sequence of draws is a tape. The library algorithms are modelled by their
  contracts: \<open>uniform_int_distribution a b\<close> yields a value of \<open>[a, b]\<close> for \<open>a \<le> b\<close>,
  \<open>sample xs n\<close> yields \<open>min n (length xs)\<close> elements of \<open>xs\<close> in their order (selection
  sampling), \<open>random_shuffle\<close> a permutation.
\<close>

type_synonym rng = "nat list"

fun draw :: "rng \<Rightarrow> nat \<times> rng" where
  "draw [] = (0, [])"
| "draw (r # g) = (r, g)"

definition uniform_int_distribution :: "int \<Rightarrow> int \<Rightarrow> rng \<Rightarrow> int \<times> rng" where
  "uniform_int_distribution a b g =
     (case draw g of (r, g') \<Rightarrow> (a + int (r mod nat (b - a + 1)), g'))"

fun sample :: "'a list \<Rightarrow> nat \<Rightarrow> rng \<Rightarrow> 'a list \<times> rng" where
  "sample [] n g = ([], g)"
| "sample (x # xs) n g =
     (if n = 0 then ([], g)
      else (case draw g of
              (r, g') \<Rightarrow>
                if r mod Suc (length xs) < n then
                  (case sample xs (n - 1) g' of (ys, g'') \<Rightarrow> (x # ys, g''))
                else sample xs n g'))"

fun random_shuffle :: "'a list \<Rightarrow> rng \<Rightarrow> 'a list \<times> rng" where
  "random_shuffle [] g = ([], g)"
| "random_shuffle (x # xs) g =
     (case random_shuffle xs g of
        (ys, g') \<Rightarrow>
          (case draw g' of
             (r, g'') \<Rightarrow> (take (r mod Suc (length ys)) ys @ x # drop (r mod Suc (length ys)) ys, g'')))"

section \<open>Road and lane sampler\<close>

text \<open>\<^verbatim>\<open>SelectInfo {pos, road, nLanes}\<close>; the road pointer is the road itself.\<close>

record SelectInfo =
  pos :: Position
  road :: Road
  nLanes :: int

text \<open>
  The local \<^verbatim>\<open>pos\<close> of both loops of \<^verbatim>\<open>sampleRoads\<close>: a fresh position set by
  \<^verbatim>\<open>pos.XYZH2TrackPos(pt.x, pt.y, 0, pt.h)\<close>.
\<close>

definition pointPos :: "OpenDrive \<Rightarrow> Point \<Rightarrow> Position" where
  "pointPos odr pt = XYZH2TrackPos odr newPosition (pt_x pt) (pt_y pt) 0 (pt_h pt)"

text \<open>
  The loop of the first branch of \<^verbatim>\<open>sampleRoads\<close> (lines 282 to 297): one lane for every
  selected point on a road with driving lanes. \<open>None\<close> is the dereference of the NULL road
  that \<^verbatim>\<open>GetRoadById\<close> returns for an unknown track id.
\<close>

fun sampleSelected :: "OpenDrive \<Rightarrow> Point list \<Rightarrow> SelectInfo list option" where
  "sampleSelected odr [] = Some []"
| "sampleSelected odr (pt # rest) =
     (case GetRoadById odr (GetTrackId (pointPos odr pt)) of
        None \<Rightarrow> None
      | Some rd \<Rightarrow>
          if GetNumberOfDrivingLanes rd (GetS (pointPos odr pt)) = 0
          then sampleSelected odr rest
          else (case sampleSelected odr rest of
                  None \<Rightarrow> None
                | Some info \<Rightarrow>
                    Some (\<lparr>pos = pointPos odr pt,
                           road = rd, nLanes = 1\<rparr> # info)))"

text \<open>
  The draw of the second branch (lines 314 to 320): the local \<^verbatim>\<open>lanesN\<close> from
  \<^verbatim>\<open>lanesLeft\<close> and \<^verbatim>\<open>nDrivingLanes\<close>.
\<close>

definition drawLanesN :: "int \<Rightarrow> int \<Rightarrow> rng \<Rightarrow> int \<times> rng" where
  "drawLanesN lanesLeft nDrivingLanes g =
     (if lanesLeft > 0 then
        (case uniform_int_distribution 0 (min lanesLeft nDrivingLanes) g of
           (lanesN, g') \<Rightarrow> (if lanesN = 0 then 0 else lanesN - 1, g'))
      else (0, g))"

text \<open>
  The loop of the second branch (lines 303 to 328), with the final value of
  \<^verbatim>\<open>lanesLeft\<close> beside the selections.
\<close>

fun sampleAll :: "OpenDrive \<Rightarrow> int \<Rightarrow> Point list \<Rightarrow> rng \<Rightarrow> (SelectInfo list \<times> int \<times> rng) option" where
  "sampleAll odr lanesLeft [] g = Some ([], lanesLeft, g)"
| "sampleAll odr lanesLeft (pt # rest) g =
     (case GetRoadById odr (GetTrackId (pointPos odr pt)) of
        None \<Rightarrow> None
      | Some rd \<Rightarrow>
          if int (GetNumberOfDrivingLanes rd (GetS (pointPos odr pt))) = 0
          then sampleAll odr (lanesLeft + 1) rest g
          else (case drawLanesN lanesLeft
                       (int (GetNumberOfDrivingLanes rd
                          (GetS (pointPos odr pt)))) g of
                  (lanesN, g') \<Rightarrow>
                    (case sampleAll odr (lanesLeft - lanesN) rest g' of
                       None \<Rightarrow> None
                     | Some (info, left, g'') \<Rightarrow>
                         Some (\<lparr>pos = pointPos odr pt,
                                road = rd, nLanes = 1 + lanesN\<rparr> # info, left, g''))))"

text \<open>
  The local \<^verbatim>\<open>nCarsToSpawn\<close>: the draw \<^verbatim>\<open>dist(gen)\<close> of the distribution over
  \<open>[minN, maxN]\<close>. The distribution object is built before the guard \<^verbatim>\<open>maxN < minN\<close>;
  building it draws nothing.
\<close>

definition nCarsToSpawn :: "int \<Rightarrow> int \<Rightarrow> rng \<Rightarrow> int" where
  "nCarsToSpawn minN maxN g = fst (uniform_int_distribution minN maxN g)"

definition sampleRoads ::
  "OpenDrive \<Rightarrow> int \<Rightarrow> int \<Rightarrow> Point list \<Rightarrow> SelectInfo list \<Rightarrow> rng \<Rightarrow> (SelectInfo list \<times> rng) option" where
  "sampleRoads odr minN maxN sols info g =
     (if maxN < minN then Some (info, g)
      else if nCarsToSpawn minN maxN g \<le> int (length sols) \<and> nCarsToSpawn minN maxN g > 0 then
        (case random_shuffle sols (snd (uniform_int_distribution minN maxN g)) of
           (shuffled, g') \<Rightarrow>
             (case sample shuffled (nat (nCarsToSpawn minN maxN g)) g' of
                (selected, g'') \<Rightarrow>
                  (case sampleSelected odr selected of
                     None \<Rightarrow> None
                   | Some info' \<Rightarrow> Some (info', g''))))
      else
        (case sampleAll odr (nCarsToSpawn minN maxN g - int (length sols)) sols
                (snd (uniform_int_distribution minN maxN g)) of
           None \<Rightarrow> None
         | Some (info', left, g') \<Rightarrow> Some (info', g')))"

section \<open>Spawn\<close>

text \<open>\<^verbatim>\<open>std::to_string\<close> on an \<^verbatim>\<open>int\<close>: the decimal digits, with a sign.\<close>

fun digits :: "nat \<Rightarrow> string" where
  "digits n =
     (if n < 10 then [''0123456789'' ! n]
      else digits (n div 10) @ [''0123456789'' ! (n mod 10)])"

definition to_string :: "int \<Rightarrow> string" where
  "to_string i = (if i < 0 then CHR ''-'' # digits (nat (- i)) else digits (nat i))"

text \<open>
  \<^verbatim>\<open>createVehicle\<close>: a new vehicle at the inertial pose of \<open>p\<close> with the heading
  \<open>GetH p + hdg_offset * M_PI\<close>, placed on lane \<open>laneID\<close> of the track the pose converts to.
  The controller argument is always NULL and is left out.
\<close>

definition createVehicle :: "OpenDrive \<Rightarrow> Position \<Rightarrow> int \<Rightarrow> int \<Rightarrow> real \<Rightarrow> string \<Rightarrow> Object" where
  "createVehicle odr p hdg_offset laneID speed model_filepath =
     \<lparr>obj_id = 0, obj_name = [],
      obj_pos =
        SetLanePos (SetInertiaPos odr newPosition (GetX p) (GetY p) (GetH p + real_of_int hdg_offset * M_PI))
          (GetTrackId (SetInertiaPos odr newPosition (GetX p) (GetY p) (GetH p + real_of_int hdg_offset * M_PI)))
          laneID
          (GetS (SetInertiaPos odr newPosition (GetX p) (GetY p) (GetH p + real_of_int hdg_offset * M_PI)))
          0,
      obj_speed = speed, obj_model_filepath = model_filepath\<rparr>"

text \<open>
  \<^verbatim>\<open>ensureDistance\<close>: false as soon as a record on the candidate's road and lane has its
  vehicle within \<open>VHEICLE_DISTANCE\<close> of the candidate along the arc-length. \<open>None\<close> is the
  dereference of a NULL vehicle.
\<close>

fun ensureDistanceLoop :: "Object list \<Rightarrow> SpawnInfo list \<Rightarrow> Position \<Rightarrow> int \<Rightarrow> bool option" where
  "ensureDistanceLoop ents [] p laneID = Some True"
| "ensureDistanceLoop ents (info # rest) p laneID =
     (if lane info = laneID \<and> roadID info = GetTrackId p then
        (case GetObjectById ents (vehicleID info) of
           None \<Rightarrow> None
         | Some vehicle \<Rightarrow>
             if \<bar>GetS (obj_pos vehicle) - GetS p\<bar> \<le> VHEICLE_DISTANCE then Some False
             else ensureDistanceLoop ents rest p laneID)
      else ensureDistanceLoop ents rest p laneID)"

definition ensureDistance :: "SwarmTrafficAction \<Rightarrow> Position \<Rightarrow> int \<Rightarrow> bool option" where
  "ensureDistance a p laneID = ensureDistanceLoop (entities a) (spawnedV a) p laneID"

text \<open>
  \<^verbatim>\<open>vehicle->name_ = ...\<close> after \<^verbatim>\<open>addObject\<close>: the object that received the id is
  renamed in the repository.
\<close>

definition setName :: "Object list \<Rightarrow> int \<Rightarrow> string \<Rightarrow> Object list" where
  "setName ents i nm = map (\<lambda>ob. if obj_id ob = i then ob\<lparr>obj_name := nm\<rparr> else ob) ents"

text \<open>The body of the inner loop of \<^verbatim>\<open>spawn\<close> (lines 352 to 374), for one lane index.\<close>

definition spawnLane ::
  "OpenDrive \<Rightarrow> real \<Rightarrow> SelectInfo \<Rightarrow> int \<Rightarrow> SwarmTrafficAction \<Rightarrow> SwarmTrafficAction option" where
  "spawnLane odr simTime sel laneIdx a =
     (case GetDrivingLaneByIdx (road sel) (GetS (pos sel)) laneIdx of
        None \<Rightarrow> Some a
      | Some laneID \<Rightarrow>
          (case ensureDistance a (pos sel) laneID of
             None \<Rightarrow> None
           | Some ok \<Rightarrow>
               if \<not> ok then Some a
               else
                 (case addObject (entities a)
                         (createVehicle odr (pos sel) (if laneID < 0 then 0 else 1) laneID (velocity a)
                            ''car_red.osgb'') of
                    (i, ents) \<Rightarrow>
                      Some (a\<lparr>entities := setName ents i (to_string i),
                              spawnedV := spawnedV a @
                                [\<lparr>vehicleID = i, outMidAreaCount = 0, roadID = GetTrackId (pos sel),
                                  lane = laneID, spawnSimTime = simTime\<rparr>]\<rparr>))))"

fun spawnLanes ::
  "OpenDrive \<Rightarrow> real \<Rightarrow> SelectInfo \<Rightarrow> int list \<Rightarrow> SwarmTrafficAction \<Rightarrow> SwarmTrafficAction option" where
  "spawnLanes odr simTime sel [] a = Some a"
| "spawnLanes odr simTime sel (laneIdx # rest) a =
     (case spawnLane odr simTime sel laneIdx a of
        None \<Rightarrow> None
      | Some a' \<Rightarrow> spawnLanes odr simTime sel rest a')"

text \<open>
  The outer loop of \<^verbatim>\<open>spawn\<close>. The array \<^verbatim>\<open>lanes\<close> has \<open>nLanes\<close> cells and
  \<^verbatim>\<open>sample\<close> fills \<open>min nLanes lanesNo\<close> of them: with more cells than driving lanes the
  loop would read cells never written, which is \<open>None\<close> here, as is a negative size.
\<close>

fun spawnAll ::
  "OpenDrive \<Rightarrow> real \<Rightarrow> SelectInfo list \<Rightarrow> SwarmTrafficAction \<Rightarrow> rng \<Rightarrow> (SwarmTrafficAction \<times> rng) option" where
  "spawnAll odr simTime [] a g = Some (a, g)"
| "spawnAll odr simTime (sel # rest) a g =
     (if nLanes sel < 0 \<or> int (GetNumberOfDrivingLanes (road sel) (GetS (pos sel))) < nLanes sel then None
      else
        (case sample (map int [0..<GetNumberOfDrivingLanes (road sel) (GetS (pos sel))])
                (nat (nLanes sel)) g of
           (lanes, g') \<Rightarrow>
             (case spawnLanes odr simTime sel lanes a of
                None \<Rightarrow> None
              | Some a' \<Rightarrow> spawnAll odr simTime rest a' g')))"

text \<open>The local \<^verbatim>\<open>maxCars\<close> of \<^verbatim>\<open>spawn\<close>: the remaining capacity of the fleet.\<close>

abbreviation maxCars :: "SwarmTrafficAction \<Rightarrow> int" where
  "maxCars a \<equiv> numberOfVehicles a - int (length (spawnedV a))"

definition spawn ::
  "OpenDrive \<Rightarrow> Point list \<Rightarrow> int \<Rightarrow> real \<Rightarrow> SwarmTrafficAction \<Rightarrow> rng \<Rightarrow> (SwarmTrafficAction \<times> rng) option" where
  "spawn odr sols replace simTime a g =
     (if numberOfVehicles a - int (length (spawnedV a)) \<le> 0 then Some (a, g)
      else
        (case sampleRoads odr replace (numberOfVehicles a - int (length (spawnedV a))) sols [] g of
           None \<Rightarrow> None
         | Some (info, g') \<Rightarrow> spawnAll odr simTime info a g'))"

section \<open>Road segmenter\<close>

text \<open>
  The body of the loop over a straight span (lines 186 to 204): the local \<^verbatim>\<open>ds\<close>, and
  the triangle over \<open>[distS, ds]\<close> with its third vertex a quarter of the chunk length off
  the midpoint.
\<close>

definition lineEnd :: "Geometry \<Rightarrow> real \<Rightarrow> real \<Rightarrow> real" where
  "lineEnd gm minSz distS =
     (if distS + minSz > GetLength gm then GetLength gm else distS + minSz)"

definition lineTriangle :: "Geometry \<Rightarrow> real \<Rightarrow> real \<Rightarrow> Triangle" where
  "lineTriangle gm distS ds =
     (case EvaluateDS gm distS of
        (x0, y0, dummy) \<Rightarrow>
          (case EvaluateDS gm ds of
             (x1, y1, dummy') \<Rightarrow>
               \<lparr>tri_a = \<lparr>pt_x = x0, pt_y = y0, pt_h = 0\<rparr>,
                tri_b = \<lparr>pt_x = x1, pt_y = y1, pt_h = 0\<rparr>,
                tri_c = \<lparr>pt_x = (x1 + x0) / 2 + sqrt ((x1 - x0)\<^sup>2 + (y1 - y0)\<^sup>2) / 4,
                         pt_y = (y1 + y0) / 2 + sqrt ((x1 - x0)\<^sup>2 + (y1 - y0)\<^sup>2) / 4, pt_h = 0\<rparr>,
                sI = distS, sF = ds, sourceSpan = Some gm\<rparr>))"

text \<open>
  The loop \<^verbatim>\<open>for (double dist = gm->GetS(); dist < length;)\<close>, started at \<open>dist = distS\<close>. With
  a step that is not positive the loop does not end: the result is \<open>None\<close>.
\<close>

partial_function (option) lineSegments ::
  "Geometry \<Rightarrow> real \<Rightarrow> real \<Rightarrow> Triangle list \<Rightarrow> Triangle list option" where
  "lineSegments gm minSz distS vec =
     (if distS < GetLength gm then
        lineSegments gm minSz (lineEnd gm minSz distS)
          (vec @ [lineTriangle gm distS (lineEnd gm minSz distS)])
      else Some vec)"

text \<open>
  The \<^verbatim>\<open>switch\<close> on the type of a span; \<open>curve2triangles\<close> (the tessellation of curved
  spans, not among the sources) is a parameter that extends the vector.
\<close>

definition geometrySegments ::
  "(Geometry \<Rightarrow> real \<Rightarrow> real \<Rightarrow> Triangle list \<Rightarrow> Triangle list) \<Rightarrow> real \<Rightarrow> Geometry
    \<Rightarrow> Triangle list \<Rightarrow> Triangle list option" where
  "geometrySegments curve2triangles minSz gm vec =
     (case GetType gm of
        GEOMETRY_TYPE_UNKNOWN \<Rightarrow> Some vec
      | GEOMETRY_TYPE_LINE \<Rightarrow> lineSegments gm minSz (GetGeometryS gm) vec
      | GEOMETRY_TYPE_OTHER \<Rightarrow> Some (curve2triangles gm minSz (M_PI / 36) vec))"

fun roadSegments ::
  "(Geometry \<Rightarrow> real \<Rightarrow> real \<Rightarrow> Triangle list \<Rightarrow> Triangle list) \<Rightarrow> real \<Rightarrow> Geometry list
    \<Rightarrow> Triangle list \<Rightarrow> Triangle list option" where
  "roadSegments curve2triangles minSz [] vec = Some vec"
| "roadSegments curve2triangles minSz (gm # gms) vec =
     (case geometrySegments curve2triangles minSz gm vec of
        None \<Rightarrow> None
      | Some vec' \<Rightarrow> roadSegments curve2triangles minSz gms vec')"

fun roadsSegments ::
  "(Geometry \<Rightarrow> real \<Rightarrow> real \<Rightarrow> Triangle list \<Rightarrow> Triangle list) \<Rightarrow> real \<Rightarrow> Road list
    \<Rightarrow> Triangle list \<Rightarrow> Triangle list option" where
  "roadsSegments curve2triangles minSz [] vec = Some vec"
| "roadsSegments curve2triangles minSz (rd # rds) vec =
     (case roadSegments curve2triangles minSz (GetGeometries rd) vec of
        None \<Rightarrow> None
      | Some vec' \<Rightarrow> roadsSegments curve2triangles minSz rds vec')"

definition createRoadSegments ::
  "(Geometry \<Rightarrow> real \<Rightarrow> real \<Rightarrow> Triangle list \<Rightarrow> Triangle list) \<Rightarrow> OpenDrive \<Rightarrow> real
    \<Rightarrow> Triangle list \<Rightarrow> Triangle list option" where
  "createRoadSegments curve2triangles odr minSz vec =
     roadsSegments curve2triangles minSz (GetRoads odr) vec"

section \<open>Binary64 arithmetic\<close>

text \<open>
  The angular loop of the ellipse sampler adds the step to the angle until a bound is
  reached that the exact sum would meet: how often it runs is decided by the rounding of
  \<^verbatim>\<open>double\<close>. Its angles are therefore binary64 numbers: a finite number is
  \<open>mant * 2 ^ expo\<close>, and every operation yields the exact result rounded to 53
  significant bits, to nearest and ties to even (IEEE 754, as a compiler folds constant
  expressions and as an x86-64 or AArch64 target computes). The exponent range is not
  modelled (no overflow, subnormal number, infinity or NaN, no division by zero): the
  angles of the sampler lie between \<open>2^-5\<close> and \<open>2^3\<close> in magnitude.
\<close>

datatype double = Double (mant: int) (expo: int)

text \<open>The real number a binary64 number denotes.\<close>

definition valof :: "double \<Rightarrow> real" where
  "valof d = (if 0 \<le> expo d then real_of_int (mant d) * 2 ^ nat (expo d)
              else real_of_int (mant d) / 2 ^ nat (- expo d))"

text \<open>
  The number of low bits of \<open>m\<close> that do not fit into 53 bits: the least \<open>k\<close>, from the
  given one on, with \<open>\<bar>m\<bar> < 2 ^ (53 + k)\<close>.
\<close>

function excess :: "int \<Rightarrow> nat \<Rightarrow> nat" where
  "excess m k = (if \<bar>m\<bar> < 2 ^ (53 + k) then k else excess m (k + 1))"
  by pat_completeness auto
termination
proof (relation "measure (\<lambda>(m, k). nat (\<bar>m\<bar> + 1 - 2 ^ (53 + k)))")
  show "wf (measure (\<lambda>(m, k). nat (\<bar>m\<bar> + 1 - 2 ^ (53 + k))))" by simp
next
  fix m :: int and k :: nat
  assume "\<not> \<bar>m\<bar> < 2 ^ (53 + k)"
  then have "(2::int) ^ (53 + k) \<le> \<bar>m\<bar>" by simp
  moreover have "(2::int) ^ (53 + (k + 1)) = 2 * 2 ^ (53 + k)"
    by (metis add_Suc_right Suc_eq_plus1 power_Suc)
  moreover have "(0::int) < 2 ^ (53 + k)" by simp
  ultimately have "nat (\<bar>m\<bar> + 1 - 2 ^ (53 + (k + 1))) < nat (\<bar>m\<bar> + 1 - 2 ^ (53 + k))"
    by linarith
  then show "((m, k + 1), (m, k)) \<in> measure (\<lambda>(m, k). nat (\<bar>m\<bar> + 1 - 2 ^ (53 + k)))"
    by simp
qed

declare excess.simps [simp del]

text \<open>\<open>m / 2 ^ k\<close> rounded to the nearest integer, a tie to the even one.\<close>

definition rne :: "int \<Rightarrow> nat \<Rightarrow> int" where
  "rne m k =
     (if 2 * (m mod 2 ^ k) < 2 ^ k then m div 2 ^ k
      else if 2 * (m mod 2 ^ k) > 2 ^ k then m div 2 ^ k + 1
      else if even (m div 2 ^ k) then m div 2 ^ k
      else m div 2 ^ k + 1)"

text \<open>The binary64 number nearest to the exact value \<open>m * 2 ^ e\<close>.\<close>

definition fl :: "int \<Rightarrow> int \<Rightarrow> double" where
  "fl m e = Double (rne m (excess m 0)) (e + int (excess m 0))"

text \<open>The mantissa of \<open>x\<close> at the smaller of the exponents of \<open>x\<close> and \<open>y\<close>.\<close>

definition aligned :: "double \<Rightarrow> double \<Rightarrow> int" where
  "aligned x y = mant x * 2 ^ nat (expo x - min (expo x) (expo y))"

definition dadd :: "double \<Rightarrow> double \<Rightarrow> double" where
  "dadd x y = fl (aligned x y + aligned y x) (min (expo x) (expo y))"

definition dsub :: "double \<Rightarrow> double \<Rightarrow> double" where
  "dsub x y = fl (aligned x y - aligned y x) (min (expo x) (expo y))"

definition dneg :: "double \<Rightarrow> double" where
  "dneg x = Double (- mant x) (expo x)"

definition dmul :: "double \<Rightarrow> double \<Rightarrow> double" where
  "dmul x y = fl (mant x * mant y) (expo x + expo y)"

definition dless :: "double \<Rightarrow> double \<Rightarrow> bool" where
  "dless x y \<longleftrightarrow> aligned x y < aligned y x"

text \<open>
  Division: the quotient of the mantissas is taken with so many extra bits (\<open>quotShift\<close>)
  that it has at least 55, and a last bit is appended that tells whether the division
  left a remainder; rounding this number is rounding the exact quotient.
\<close>

function bitlen :: "nat \<Rightarrow> nat" where
  "bitlen n = (if n = 0 then 0 else bitlen (n div 2) + 1)"
  by pat_completeness auto
termination by (relation "measure id") auto

declare bitlen.simps [simp del]

definition quotShift :: "double \<Rightarrow> double \<Rightarrow> nat" where
  "quotShift x y = 56 + bitlen (nat \<bar>mant y\<bar>) - bitlen (nat \<bar>mant x\<bar>)"

definition ddiv :: "double \<Rightarrow> double \<Rightarrow> double" where
  "ddiv x y =
     fl (sgn (mant x) * sgn (mant y)
           * (2 * ((\<bar>mant x\<bar> * 2 ^ quotShift x y) div \<bar>mant y\<bar>)
              + (if (\<bar>mant x\<bar> * 2 ^ quotShift x y) mod \<bar>mant y\<bar> = 0 then 0 else 1)))
        (expo x - expo y - int (quotShift x y) - 1)"

text \<open>
  The macro \<^verbatim>\<open>M_PI\<close> (\<^verbatim>\<open>3.14159265358979323846\<close>) as a \<^verbatim>\<open>double\<close>: the binary64 number
  nearest to it, \<open>884279719003555 / 2^48\<close> (bit pattern \<^verbatim>\<open>0x400921FB54442D18\<close>).
\<close>

definition M_PI_double :: double where
  "M_PI_double = Double 884279719003555 (- 48)"

section \<open>Ellipse sampler\<close>

text \<open>
  The constants of \<^verbatim>\<open>createEllipseSegments\<close>: the bound \<^verbatim>\<open>2 * M_PI - M_PI / 72.0\<close> of the
  loop and of the clamp, the initial \<^verbatim>\<open>alpha = -M_PI / 72.0\<close> and the step
  \<^verbatim>\<open>dAlpha = M_PI / 36.0\<close>.
\<close>

definition ellipseStop :: double where
  "ellipseStop = dsub (dmul (Double 2 0) M_PI_double) (ddiv M_PI_double (Double 72 0))"

definition ellipseStart :: double where
  "ellipseStart = ddiv (dneg M_PI_double) (Double 72 0)"

definition dAlpha :: double where
  "dAlpha = ddiv M_PI_double (Double 36 0)"

text \<open>
  The local \<^verbatim>\<open>da\<close>: \<^verbatim>\<open>alpha + dAlpha\<close>, replaced by the bound when it is greater than
  the bound.
\<close>

definition ellipseEnd :: "double \<Rightarrow> double" where
  "ellipseEnd alpha =
     (if dless ellipseStop (dadd alpha dAlpha) then ellipseStop else dadd alpha dAlpha)"

text \<open>
  The \<^verbatim>\<open>while\<close> loop, started at \<open>alpha\<close>; \<open>None\<close> is a loop that does not end (as from
  an \<open>alpha\<close> so far below zero that adding the step does not change it). What is pushed
  for the angular segment \<open>[alpha, da]\<close> (the bounding box of the triangle of the two
  boundary points and the intersection of their tangents, built by helpers of
  OSCSwarmTrafficGeometry.hpp that are not among the sources) is the parameter \<open>mk\<close>, a
  function of the two angles for a given centre, orientation and pair of semi-axes; it
  receives the reals that the two angles denote.
\<close>

partial_function (option) ellipseSegments ::
  "(real \<Rightarrow> real \<Rightarrow> 'a) \<Rightarrow> double \<Rightarrow> 'a list \<Rightarrow> 'a list option" where
  "ellipseSegments mk alpha vec =
     (if dless alpha ellipseStop then
        ellipseSegments mk (ellipseEnd alpha) (vec @ [mk (valof alpha) (valof (ellipseEnd alpha))])
      else Some vec)"

definition createEllipseSegments :: "(real \<Rightarrow> real \<Rightarrow> 'a) \<Rightarrow> 'a list \<Rightarrow> 'a list option" where
  "createEllipseSegments mk vec = ellipseSegments mk ellipseStart vec"

text \<open>The angular segments of the loop: what it pushes when \<open>mk\<close> keeps the two angles.\<close>

definition ellipseAngles :: "(real \<times> real) list option" where
  "ellipseAngles = createEllipseSegments Pair []"

text \<open>
  The loop with a bound \<open>n\<close> on the number of its iterations (\<open>None\<close> when \<open>n\<close> iterations
  do not suffice), collecting the pairs \<open>(alpha, da)\<close> as binary64 numbers. It serves to
  compute the run of \<open>ellipseSegments\<close>.
\<close>

fun ellipseRun ::
  "nat \<Rightarrow> double \<Rightarrow> (double \<times> double) list \<Rightarrow> (double \<times> double) list option" where
  "ellipseRun 0 alpha acc = (if dless alpha ellipseStop then None else Some acc)"
| "ellipseRun (Suc n) alpha acc =
     (if dless alpha ellipseStop then
        ellipseRun n (ellipseEnd alpha) (acc @ [(alpha, ellipseEnd alpha)])
      else Some acc)"

section \<open>Start and Step\<close>

text \<open>
  \<^verbatim>\<open>Start\<close>: the mid radii, the last evaluation time, \<^verbatim>\<open>minSize_\<close> and the road tree
  over the segments of the road network \<open>odr\<close> (\<^verbatim>\<open>Position::GetOpenDrive()\<close>).
  \<open>paramEllipse\<close> (OSCSwarmTrafficGeometry.hpp, not among the sources) is a parameter: the
  point of the ellipse at an angle. \<open>None\<close> is a segmentation that does not end.
\<close>

definition Start ::
  "(real \<Rightarrow> real \<Rightarrow> real \<Rightarrow> real \<Rightarrow> real \<Rightarrow> real \<Rightarrow> real \<times> real)
    \<Rightarrow> (Geometry \<Rightarrow> real \<Rightarrow> real \<Rightarrow> Triangle list \<Rightarrow> Triangle list) \<Rightarrow> OpenDrive
    \<Rightarrow> SwarmTrafficAction \<Rightarrow> SwarmTrafficAction option" where
  "Start paramEllipse curve2triangles odr a =
     (let mj = (semiMajorAxis a + innerRadius a) / 2;
          mn = (semiMinorAxis a + innerRadius a) / 2;
          p0 = paramEllipse 0 0 0 mj mn 0;
          p1 = paramEllipse (M_PI / 36) 0 0 mj mn 0;
          ms = real_of_int \<lceil>sqrt ((fst p1 - fst p0)\<^sup>2 + (snd p1 - snd p0)\<^sup>2) * 100\<rceil> / 100
      in (case createRoadSegments curve2triangles odr (if ms = 0 then 1 else ms) [] of
            None \<Rightarrow> None
          | Some vec \<Rightarrow>
              Some (a\<lparr>midSMjA := mj, midSMnA := mn, lastTime := -1,
                      minSize := (if ms = 0 then 1 else ms), rTree := vec\<rparr>)))"

text \<open>
  \<^verbatim>\<open>Step\<close>. The ellipse is resampled by \<open>createEllipseSegments\<close>, where \<open>mk\<close> builds the
  triangle of an angular segment from the mid radii and the pose of the central object;
  \<open>None\<close> is a resampling that does not end.
  The rest of the geometric pipeline (the tree over the ellipse segments, its
  intersection with the road tree, \<^verbatim>\<open>processCandidates\<close> and \<^verbatim>\<open>findPoints\<close>, none among
  the sources) is the parameter \<open>findPoints\<close>, from the road segments, the ellipse
  segments and the ellipse info to the solution points; \<open>ell\<close> is the membership function
  of \<open>despawn\<close>. \<^verbatim>\<open>abs\<close> is the absolute value of a \<^verbatim>\<open>double\<close>, here and in
  \<^verbatim>\<open>ensureDistance\<close>.
\<close>

definition Step ::
  "OpenDrive \<Rightarrow> (real \<Rightarrow> real \<Rightarrow> real \<Rightarrow> real \<Rightarrow> real \<Rightarrow> real \<Rightarrow> real \<Rightarrow> real)
    \<Rightarrow> (real \<Rightarrow> real \<Rightarrow> Position \<Rightarrow> real \<Rightarrow> real \<Rightarrow> Triangle)
    \<Rightarrow> (Triangle list \<Rightarrow> Triangle list \<Rightarrow> real \<Rightarrow> real \<Rightarrow> Position \<Rightarrow> Point list)
    \<Rightarrow> real \<Rightarrow> real \<Rightarrow> SwarmTrafficAction \<Rightarrow> rng \<Rightarrow> (SwarmTrafficAction \<times> rng) option" where
  "Step odr ell mk findPoints dt simTime a g =
     (if lastTime a < 0 \<or> \<bar>simTime - lastTime a\<bar> > TIME_INTERVAL then
        (case createEllipseSegments (mk (midSMjA a) (midSMnA a) (obj_pos (centralObject a))) [] of
           None \<Rightarrow> None
         | Some vec \<Rightarrow>
             (case despawn ell simTime a of
                None \<Rightarrow> None
              | Some (a', count) \<Rightarrow>
                  (case spawn odr
                          (findPoints (rTree a) vec (midSMjA a) (midSMnA a) (obj_pos (centralObject a)))
                          count simTime a' g of
                     None \<Rightarrow> None
                   | Some (a'', g') \<Rightarrow> Some (a''\<lparr>lastTime := simTime\<rparr>, g'))))
      else Some (a, g))"

section \<open>Spacing of the active records\<close>

text \<open>
  The arc-length of a record's vehicle, and the spacing property of the spec: two records
  on the same road and lane have their vehicles more than \<open>VHEICLE_DISTANCE\<close> apart. A
  record whose vehicle the repository does not hold has no arc-length.
\<close>

definition recordS :: "Object list \<Rightarrow> SpawnInfo \<Rightarrow> real option" where
  "recordS ents r = map_option (\<lambda>v. GetS (obj_pos v)) (GetObjectById ents (vehicleID r))"

definition spaced :: "Object list \<Rightarrow> SpawnInfo \<Rightarrow> SpawnInfo \<Rightarrow> bool" where
  "spaced ents r r' =
     (lane r = lane r' \<and> roadID r = roadID r' \<longrightarrow>
        (case recordS ents r of
           None \<Rightarrow> False
         | Some s \<Rightarrow> (case recordS ents r' of None \<Rightarrow> False | Some s' \<Rightarrow> \<bar>s - s'\<bar> > VHEICLE_DISTANCE)))"

fun wellSpaced :: "Object list \<Rightarrow> SpawnInfo list \<Rightarrow> bool" where
  "wellSpaced ents [] = True"
| "wellSpaced ents (r # rs) = ((\<forall>r'\<in>set rs. spaced ents r r') \<and> wellSpaced ents rs)"

definition recordsLive :: "Object list \<Rightarrow> SpawnInfo list \<Rightarrow> bool" where
  "recordsLive ents rs = (\<forall>r\<in>set rs. GetObjectById ents (vehicleID r) \<noteq> None)"

text \<open>
  Two properties of the road network's conversion that the spacing of a new vehicle rests
  on: the arc-length it yields does not depend on the heading (the new vehicle is placed
  with the heading offset), and a position agrees with the conversion of its own pose (as
  every position set by \<open>XYZH2TrackPos\<close> does).
\<close>

definition headingFree :: "OpenDrive \<Rightarrow> bool" where
  "headingFree odr =
     (\<forall>x3 y3 z3 h3 h4. snd (snd (XYZH2Track odr x3 y3 z3 h3)) = snd (snd (XYZH2Track odr x3 y3 z3 h4)))"

definition consistentPos :: "OpenDrive \<Rightarrow> Position \<Rightarrow> bool" where
  "consistentPos odr p = (GetS p = snd (snd (XYZH2Track odr (GetX p) (GetY p) 0 (GetH p))))"

section \<open>Example scenes\<close>

text \<open>
  A reference object at the origin with heading 0, an outer ellipse with semi-axes 40 and
  20 and an inner radius of 10, so that the mid ellipse has semi-axes 25 and 15 (as
  \<^verbatim>\<open>Start\<close> computes them).
\<close>

definition poseAt :: "real \<Rightarrow> real \<Rightarrow> Position" where
  "poseAt px py =
     \<lparr>GetX = px, GetY = py, GetH = 0, GetTrackId = 0, GetLaneId = -1, GetS = px, GetOffset = 0\<rparr>"

definition carAt :: "int \<Rightarrow> string \<Rightarrow> real \<Rightarrow> real \<Rightarrow> Object" where
  "carAt i nm px py =
     \<lparr>obj_id = i, obj_name = nm, obj_pos = poseAt px py, obj_speed = 10,
      obj_model_filepath = ''car_red.osgb''\<rparr>"

definition recordOf :: "int \<Rightarrow> int \<Rightarrow> SpawnInfo" where
  "recordOf i c = \<lparr>vehicleID = i, outMidAreaCount = c, roadID = 0, lane = -1, spawnSimTime = 0\<rparr>"

text \<open>
  The road network of the end-to-end scenario: one straight road of 100 units along the
  x axis with one driving lane in each direction (lane ids -1 and 1); the last five units
  have no driving lane.
\<close>

definition straightRoad :: Road where
  "straightRoad =
     \<lparr>GetId = 0,
      GetGeometries =
        [\<lparr>GetType = GEOMETRY_TYPE_LINE, GetGeometryS = 0, GetLength = 100,
          EvaluateDS = (\<lambda>ds. (ds, 0, 0))\<rparr>],
      GetNumberOfDrivingLanes = (\<lambda>s. if s < 95 then 2 else 0),
      GetDrivingLaneByIdx = (\<lambda>s idx. if idx = 0 then Some (- 1) else if idx = 1 then Some 1 else None)\<rparr>"

definition straightNet :: OpenDrive where
  "straightNet =
     \<lparr>GetRoads = [straightRoad], XYZH2Track = (\<lambda>x3 y3 z3 h3. (0, if y3 \<le> 0 then - 1 else 1, x3))\<rparr>"

text \<open>
  A straight span along the x axis that starts at the arc-length \<open>s0\<close> of its road, and
  the straight road cut in two spans, \<open>[0, 30]\<close> and \<open>[30, 50]\<close>.
\<close>

definition lineSpan :: "real \<Rightarrow> real \<Rightarrow> Geometry" where
  "lineSpan s0 len =
     \<lparr>GetType = GEOMETRY_TYPE_LINE, GetGeometryS = s0, GetLength = len,
      EvaluateDS = (\<lambda>ds. (s0 + ds, 0, 0))\<rparr>"

definition twoSpanNet :: OpenDrive where
  "twoSpanNet =
     \<lparr>GetRoads = [straightRoad\<lparr>GetGeometries := [lineSpan 0 30, lineSpan 30 20]\<rparr>],
      XYZH2Track = (\<lambda>x3 y3 z3 h3. (0, if y3 \<le> 0 then - 1 else 1, x3))\<rparr>"

definition solAt :: "real \<Rightarrow> Point" where
  "solAt px = \<lparr>pt_x = px, pt_y = 0, pt_h = 0\<rparr>"

text \<open>
  A stand-in for the triangle of an angular segment: the two boundary points of the
  axis-parallel ellipse around the pose, and their midpoint.
\<close>

definition chordTriangle :: "real \<Rightarrow> real \<Rightarrow> Position \<Rightarrow> real \<Rightarrow> real \<Rightarrow> Triangle" where
  "chordTriangle mj mn p alpha da =
     \<lparr>tri_a = \<lparr>pt_x = GetX p + mj * cos alpha, pt_y = GetY p + mn * sin alpha, pt_h = 0\<rparr>,
      tri_b = \<lparr>pt_x = GetX p + mj * cos da, pt_y = GetY p + mn * sin da, pt_h = 0\<rparr>,
      tri_c = \<lparr>pt_x = GetX p + mj * (cos alpha + cos da) / 2,
               pt_y = GetY p + mn * (sin alpha + sin da) / 2, pt_h = 0\<rparr>,
      sI = alpha, sF = da, sourceSpan = None\<rparr>"

definition ringScene :: "Object list \<Rightarrow> SpawnInfo list \<Rightarrow> SwarmTrafficAction" where
  "ringScene ents recs =
     \<lparr>innerRadius = 10, semiMajorAxis = 40, semiMinorAxis = 20, numberOfVehicles = 3,
      velocity = 10, midSMjA = 25, midSMnA = 15, lastTime = -1, minSize = 1,
      centralObject = carAt 0 ''Ego'' 0 0, rTree = [], entities = ents, spawnedV = recs\<rparr>"

section \<open>Properties\<close>

subsection \<open>Unfolding the example scenes\<close>

lemmas scene_defs = despawn_def GetObjectById_def despawnVerdict_def despawn_e0_def despawn_e1_def
  ellipse_def ringScene_def carAt_def poseAt_def recordOf_def USELESS_THRESHOLD_def
  removeObject_def power2_eq_square

lemmas road_defs = straightNet_def straightRoad_def solAt_def pointPos_def XYZH2TrackPos_def
  SetInertiaPos_def SetLanePos_def newPosition_def createVehicle_def addObject_def getNewId_def
  setName_def to_string_def spawnLane_def ensureDistance_def GetRoadById_def M_PI_def

lemma upt_0_2: "[0..<2] = [0, Suc 0]"
  by (simp add: upt_rec)

lemmas spawn_defs = spawn_def sampleRoads_def nCarsToSpawn_def uniform_int_distribution_def
  drawLanesN_def upt_0_2 VHEICLE_DISTANCE_def

lemmas segment_defs = createRoadSegments_def geometrySegments_def lineSegments.simps lineEnd_def
  lineTriangle_def lineSpan_def twoSpanNet_def straightRoad_def

subsection \<open>The repository under removal\<close>

lemma find_Some_mem: "find P xs = Some v \<Longrightarrow> v \<in> set xs \<and> P v"
  by (induction xs) (auto split: if_splits)

lemma find_filter_distinct:
  "distinct (map obj_id xs) \<Longrightarrow> find (\<lambda>ob. obj_id ob = i) (filter P xs) = Some v
     \<Longrightarrow> find (\<lambda>ob. obj_id ob = i) xs = Some v"
proof (induction xs)
  case Nil
  then show ?case by simp
next
  case (Cons x xs)
  show ?case
  proof (cases "obj_id x = i")
    case True
    show ?thesis
    proof (cases "P x")
      case True
      with \<open>obj_id x = i\<close> Cons.prems show ?thesis by simp
    next
      case False
      with Cons.prems have "find (\<lambda>ob. obj_id ob = i) (filter P xs) = Some v" by simp
      then have "v \<in> set xs \<and> obj_id v = i"
        using find_Some_mem by fastforce
      moreover from True Cons.prems(1) have "i \<notin> obj_id ` set xs" by simp
      ultimately show ?thesis by blast
    qed
  next
    case False
    with Cons show ?thesis by (cases "P x") auto
  qed
qed

lemma GetObjectById_removeObject:
  "distinct (map obj_id ents) \<Longrightarrow> GetObjectById (removeObject ents nm) i = Some v
     \<Longrightarrow> GetObjectById ents i = Some v"
  unfolding GetObjectById_def removeObject_def by (rule find_filter_distinct)

lemma distinct_removeObject:
  "distinct (map obj_id ents) \<Longrightarrow> distinct (map obj_id (removeObject ents nm))"
  unfolding removeObject_def by (rule distinct_map_filter)

subsection \<open>The despawn loop, record by record\<close>

text \<open>
  With distinct ids in the repository, a look-up that succeeds during the loop finds the
  object the repository held at entry: the loop only removes objects. So the records kept
  are the outcomes of the records at entry, in order, and the count returned is the number
  of records erased.
\<close>

lemma despawnLoop_map_filter:
  "distinct (map obj_id ents0) \<Longrightarrow> distinct (map obj_id ents)
   \<Longrightarrow> (\<And>i v. GetObjectById ents i = Some v \<Longrightarrow> GetObjectById ents0 i = Some v)
   \<Longrightarrow> despawnLoop ell a l ents = Some (kept, ents', count)
   \<Longrightarrow> kept = List.map_filter (despawnOutcome ell a ents0) l \<and> count = int (length l) - int (length kept)"
proof (induction l arbitrary: ents kept ents' count)
  case Nil
  then show ?case by simp
next
  case (Cons info rest)
  from Cons.prems(4) obtain v where v: "GetObjectById ents (vehicleID info) = Some v"
    by (auto split: option.splits)
  then have v0: "GetObjectById ents0 (vehicleID info) = Some v" by (rule Cons.prems(3))
  obtain info' del where vd: "despawnVerdict (despawn_e0 ell a v) (despawn_e1 ell a v) info = (info', del)"
    by (cases "despawnVerdict (despawn_e0 ell a v) (despawn_e1 ell a v) info")
  show ?case
  proof (cases del)
    case True
    with Cons.prems(4) v vd obtain c where
      r: "despawnLoop ell a rest (removeObject ents (obj_name v)) = Some (kept, ents', c)" and c: "count = c + 1"
      by (auto split: option.splits)
    have "kept = List.map_filter (despawnOutcome ell a ents0) rest \<and> c = int (length rest) - int (length kept)"
      using Cons.prems(1) distinct_removeObject[OF Cons.prems(2)] _ r
    proof (rule Cons.IH)
      fix i w assume "GetObjectById (removeObject ents (obj_name v)) i = Some w"
      then have "GetObjectById ents i = Some w" by (rule GetObjectById_removeObject[OF Cons.prems(2)])
      then show "GetObjectById ents0 i = Some w" by (rule Cons.prems(3))
    qed
    moreover from True v0 vd have "despawnOutcome ell a ents0 info = None" by (simp add: despawnOutcome_def)
    ultimately show ?thesis using c by simp
  next
    case False
    with Cons.prems(4) v vd obtain k where
      r: "despawnLoop ell a rest ents = Some (k, ents', count)" and k: "kept = info' # k"
      by (auto split: option.splits)
    have "k = List.map_filter (despawnOutcome ell a ents0) rest \<and> count = int (length rest) - int (length k)"
      using Cons.prems(1,2,3) r by (rule Cons.IH)
    moreover from False v0 vd have "despawnOutcome ell a ents0 info = Some info'" by (simp add: despawnOutcome_def)
    ultimately show ?thesis using k by simp
  qed
qed

lemma despawn_spawnedV:
  assumes "distinct (map obj_id (entities a))" and "despawn ell t a = Some (a', n)"
  shows "spawnedV a' = List.map_filter (despawnOutcome ell a (entities a)) (spawnedV a)"
    and "n = int (length (spawnedV a)) - int (length (spawnedV a'))"
proof -
  from assms(2) obtain kept ents' where
    l: "despawnLoop ell a (spawnedV a) (entities a) = Some (kept, ents', n)"
    and a': "a' = a\<lparr>entities := ents', spawnedV := kept\<rparr>"
    by (auto simp: despawn_def split: option.splits)
  from despawnLoop_map_filter[OF assms(1) assms(1) _ l] a'
  show "spawnedV a' = List.map_filter (despawnOutcome ell a (entities a)) (spawnedV a)"
    and "n = int (length (spawnedV a)) - int (length (spawnedV a'))" by simp_all
qed

lemma despawnVerdict_vehicleID: "despawnVerdict e0 e1 info = (info', del) \<Longrightarrow> vehicleID info' = vehicleID info"
  by (auto simp: despawnVerdict_def Let_def split: if_splits)

lemma despawnOutcome_vehicleID: "despawnOutcome ell a ents info = Some info' \<Longrightarrow> vehicleID info' = vehicleID info"
  by (auto simp: despawnOutcome_def despawnVerdict_def Let_def split: option.splits if_splits)

lemma map_filter_mem: "y \<in> set (List.map_filter f xs) \<longleftrightarrow> (\<exists>x\<in>set xs. f x = Some y)"
  by (induction xs) (auto split: option.splits)

lemma erased_no_record:
  assumes "\<And>r. r \<in> set l \<Longrightarrow> vehicleID r = i \<Longrightarrow> despawnOutcome ell a ents r = None"
  shows "i \<notin> vehicleID ` set (List.map_filter (despawnOutcome ell a ents) l)"
proof
  assume "i \<in> vehicleID ` set (List.map_filter (despawnOutcome ell a ents) l)"
  then obtain r r' where "r \<in> set l" "despawnOutcome ell a ents r = Some r'" "vehicleID r' = i"
    by (auto simp: map_filter_mem)
  with assms[of r] despawnOutcome_vehicleID[of ell a ents r r'] show False by simp
qed

lemma length_map_filter_le: "length (List.map_filter f xs) \<le> length xs"
  by (induction xs) (auto split: option.splits)

lemma length_map_filter_less:
  "x \<in> set xs \<Longrightarrow> f x = None \<Longrightarrow> length (List.map_filter f xs) < length xs"
proof (induction xs)
  case Nil
  then show ?case by simp
next
  case (Cons y ys)
  show ?case
  proof (cases "f y")
    case None
    with length_map_filter_le[of f ys] show ?thesis by simp
  next
    case (Some z)
    with Cons show ?thesis by auto
  qed
qed

subsection \<open>Outer ellipse\<close>

text \<open>
  Claim C1, as amended. For every record evaluated by \<open>despawn\<close> whose vehicle has an
  outer-ellipse membership above the tolerance 0.001 (the test \<^verbatim>\<open>e0 > 0.001\<close> of the
  code), no record of that vehicle is left after the evaluation, whatever its
  \<open>outMidAreaCount\<close>, and the count returned is at least 1.
\<close>

theorem despawn_outside_outer:
  assumes "distinct (map obj_id (entities a))"
    and "despawn ell t a = Some (a', n)"
    and "info \<in> set (spawnedV a)"
    and "GetObjectById (entities a) (vehicleID info) = Some v"
    and "despawn_e0 ell a v > 1 / 1000"
  shows "vehicleID info \<notin> vehicleID ` set (spawnedV a') \<and> 1 \<le> n"
proof -
  have out: "despawnOutcome ell a (entities a) r = None" if "vehicleID r = vehicleID info" for r
    using that assms(4,5) by (simp add: despawnOutcome_def despawnVerdict_def)
  have "vehicleID info \<notin> vehicleID ` set (spawnedV a')"
    unfolding despawn_spawnedV(1)[OF assms(1,2)] by (rule erased_no_record) (simp add: out)
  moreover have "length (spawnedV a') < length (spawnedV a)"
    unfolding despawn_spawnedV(1)[OF assms(1,2)]
    using assms(3) out[of info] by (simp add: length_map_filter_less)
  ultimately show ?thesis using despawn_spawnedV(2)[OF assms(1,2)] by simp
qed

text \<open>
  The theorem at a scene of two vehicles: vehicle 1 at \<open>(41, 0)\<close>, outside the outer
  ellipse, is removed; vehicle 2 at \<open>(10, 0)\<close> stays.
\<close>

theorem despawn_outside_outer_witness:
  "despawn ellipse 0 (ringScene [carAt 1 ''1'' 41 0, carAt 2 ''2'' 10 0] [recordOf 1 0, recordOf 2 3])
     = Some (ringScene [carAt 2 ''2'' 10 0] [recordOf 2 0], 1)
   \<and> despawn_e0 ellipse (ringScene [carAt 1 ''1'' 41 0, carAt 2 ''2'' 10 0] [recordOf 1 0, recordOf 2 3])
        (carAt 1 ''1'' 41 0) > 1 / 1000
   \<and> vehicleID (recordOf 1 0) \<notin> vehicleID ` set (spawnedV (ringScene [carAt 2 ''2'' 10 0] [recordOf 2 0]))"
proof -
  let ?a = "ringScene [carAt 1 ''1'' 41 0, carAt 2 ''2'' 10 0] [recordOf 1 0, recordOf 2 3]"
  have d: "distinct (map obj_id (entities ?a))"
    by (simp add: ringScene_def carAt_def)
  have r: "despawn ellipse 0 ?a = Some (ringScene [carAt 2 ''2'' 10 0] [recordOf 2 0], 1)"
    by (simp add: despawn_def GetObjectById_def despawnVerdict_def despawn_e0_def despawn_e1_def
        ellipse_def ringScene_def carAt_def poseAt_def recordOf_def USELESS_THRESHOLD_def
        removeObject_def power2_eq_square)
  have m: "recordOf 1 0 \<in> set (spawnedV ?a)"
    by (simp add: ringScene_def)
  have g: "GetObjectById (entities ?a) (vehicleID (recordOf 1 0)) = Some (carAt 1 ''1'' 41 0)"
    by (simp add: GetObjectById_def ringScene_def carAt_def recordOf_def)
  have e: "despawn_e0 ellipse ?a (carAt 1 ''1'' 41 0) > 1 / 1000"
    by (simp add: despawn_e0_def ellipse_def ringScene_def carAt_def poseAt_def power2_eq_square)
  from despawn_outside_outer[OF d r m g e] r e show ?thesis by simp
qed

text \<open>
  Claim C1 as stated fails on the boundary: a vehicle at \<open>(40, 0)\<close> lies exactly on the
  outer ellipse (membership 0, so "at or outside"), and a record with
  \<open>outMidAreaCount = 0\<close> is kept by the evaluation, its counter now 1: the first test is
  \<^verbatim>\<open>e0 > 0.001\<close>, and the vehicle falls to the mid-ellipse branch.
\<close>

theorem despawn_outer_boundary_counterexample:
  "despawn_e0 ellipse (ringScene [carAt 1 ''1'' 40 0] [recordOf 1 0]) (carAt 1 ''1'' 40 0) = 0
   \<and> despawn ellipse 0 (ringScene [carAt 1 ''1'' 40 0] [recordOf 1 0])
       = Some (ringScene [carAt 1 ''1'' 40 0] [recordOf 1 1], 0)"
  by (simp add: despawn_def GetObjectById_def despawnVerdict_def despawn_e0_def despawn_e1_def
      ellipse_def ringScene_def carAt_def poseAt_def recordOf_def USELESS_THRESHOLD_def
      power2_eq_square)

subsection \<open>Mid ellipse and patience\<close>

text \<open>
  Claim C2. For every record evaluated by \<open>despawn\<close> whose vehicle is not outside the
  outer ellipse (the test \<^verbatim>\<open>e0 > 0.001\<close> fails): when the vehicle is at or outside the mid
  ellipse (\<open>0 \<le> e1\<close>), the counter is incremented, the record is kept as long as the
  incremented counter does not exceed \<open>USELESS_THRESHOLD = 5\<close>, and it is erased once it
  does; when the vehicle is inside the mid ellipse (\<open>e1 < 0\<close>), the record is kept with
  its counter reset to 0. Records are told apart by their vehicle ids.
\<close>

theorem despawn_hysteresis:
  assumes "distinct (map obj_id (entities a))"
    and "despawn ell t a = Some (a', n)"
    and "info \<in> set (spawnedV a)"
    and "GetObjectById (entities a) (vehicleID info) = Some v"
    and "\<not> despawn_e0 ell a v > 1 / 1000"
    and "distinct (map vehicleID (spawnedV a))"
  shows "(0 \<le> despawn_e1 ell a v \<and> outMidAreaCount info + 1 \<le> USELESS_THRESHOLD
            \<longrightarrow> info\<lparr>outMidAreaCount := outMidAreaCount info + 1\<rparr> \<in> set (spawnedV a'))
       \<and> (0 \<le> despawn_e1 ell a v \<and> outMidAreaCount info + 1 > USELESS_THRESHOLD
            \<longrightarrow> vehicleID info \<notin> vehicleID ` set (spawnedV a'))
       \<and> (despawn_e1 ell a v < 0 \<longrightarrow> info\<lparr>outMidAreaCount := 0\<rparr> \<in> set (spawnedV a'))"
proof (intro conjI impI)
  assume h: "0 \<le> despawn_e1 ell a v \<and> outMidAreaCount info + 1 \<le> USELESS_THRESHOLD"
  with assms(4,5) have "despawnOutcome ell a (entities a) info
      = Some (info\<lparr>outMidAreaCount := outMidAreaCount info + 1\<rparr>)"
    by (auto simp: despawnOutcome_def despawnVerdict_def Let_def)
  with assms(3) show "info\<lparr>outMidAreaCount := outMidAreaCount info + 1\<rparr> \<in> set (spawnedV a')"
    unfolding despawn_spawnedV(1)[OF assms(1,2)] map_filter_mem by blast
next
  assume h: "0 \<le> despawn_e1 ell a v \<and> outMidAreaCount info + 1 > USELESS_THRESHOLD"
  with assms(4,5) have "despawnOutcome ell a (entities a) info = None"
    by (auto simp: despawnOutcome_def despawnVerdict_def Let_def)
  moreover have "r = info" if "r \<in> set (spawnedV a)" "vehicleID r = vehicleID info" for r
    using that assms(3,6) by (auto simp: distinct_map dest: inj_onD)
  ultimately have out: "despawnOutcome ell a (entities a) r = None"
    if "r \<in> set (spawnedV a)" "vehicleID r = vehicleID info" for r
    using that by blast
  show "vehicleID info \<notin> vehicleID ` set (spawnedV a')"
    unfolding despawn_spawnedV(1)[OF assms(1,2)] by (rule erased_no_record) (rule out)
next
  assume h: "despawn_e1 ell a v < 0"
  with assms(4,5) have "despawnOutcome ell a (entities a) info = Some (info\<lparr>outMidAreaCount := 0\<rparr>)"
    by (auto simp: despawnOutcome_def despawnVerdict_def Let_def)
  with assms(3) show "info\<lparr>outMidAreaCount := 0\<rparr> \<in> set (spawnedV a')"
    unfolding despawn_spawnedV(1)[OF assms(1,2)] map_filter_mem by blast
qed


text \<open>
  The theorem at a scene of three vehicles between the two ellipses or inside the mid one:
  vehicle 1 (counter 2) is kept with counter 3, vehicle 2 (counter 5) is erased, vehicle 3,
  inside the mid ellipse, is kept with counter 0.
\<close>

theorem despawn_hysteresis_witness:
  "despawn ellipse 0 (ringScene [carAt 1 ''1'' 0 16, carAt 2 ''2'' 0 17, carAt 3 ''3'' 10 0]
                                 [recordOf 1 2, recordOf 2 5, recordOf 3 3])
     = Some (ringScene [carAt 1 ''1'' 0 16, carAt 3 ''3'' 10 0] [recordOf 1 3, recordOf 3 0], 1)
   \<and> (recordOf 1 2)\<lparr>outMidAreaCount := 3\<rparr>
        \<in> set (spawnedV (ringScene [carAt 1 ''1'' 0 16, carAt 3 ''3'' 10 0] [recordOf 1 3, recordOf 3 0]))
   \<and> vehicleID (recordOf 2 5)
        \<notin> vehicleID ` set (spawnedV (ringScene [carAt 1 ''1'' 0 16, carAt 3 ''3'' 10 0] [recordOf 1 3, recordOf 3 0]))
   \<and> (recordOf 3 3)\<lparr>outMidAreaCount := 0\<rparr>
        \<in> set (spawnedV (ringScene [carAt 1 ''1'' 0 16, carAt 3 ''3'' 10 0] [recordOf 1 3, recordOf 3 0]))"
proof -
  let ?ents = "[carAt 1 ''1'' 0 16, carAt 2 ''2'' 0 17, carAt 3 ''3'' 10 0]"
  let ?a = "ringScene ?ents [recordOf 1 2, recordOf 2 5, recordOf 3 3]"
  let ?a' = "ringScene [carAt 1 ''1'' 0 16, carAt 3 ''3'' 10 0] [recordOf 1 3, recordOf 3 0]"
  have d: "distinct (map obj_id (entities ?a))"
    by (simp add: ringScene_def carAt_def)
  have dv: "distinct (map vehicleID (spawnedV ?a))"
    by (simp add: ringScene_def recordOf_def)
  have r: "despawn ellipse 0 ?a = Some (?a', 1)"
    by (simp add: scene_defs)
  have m1: "recordOf 1 2 \<in> set (spawnedV ?a)" and m2: "recordOf 2 5 \<in> set (spawnedV ?a)"
    and m3: "recordOf 3 3 \<in> set (spawnedV ?a)"
    by (simp_all add: ringScene_def)
  have g1: "GetObjectById (entities ?a) (vehicleID (recordOf 1 2)) = Some (carAt 1 ''1'' 0 16)"
    and g2: "GetObjectById (entities ?a) (vehicleID (recordOf 2 5)) = Some (carAt 2 ''2'' 0 17)"
    and g3: "GetObjectById (entities ?a) (vehicleID (recordOf 3 3)) = Some (carAt 3 ''3'' 10 0)"
    by (simp_all add: GetObjectById_def ringScene_def carAt_def recordOf_def)
  have e1: "\<not> despawn_e0 ellipse ?a (carAt 1 ''1'' 0 16) > 1 / 1000"
    and e2: "\<not> despawn_e0 ellipse ?a (carAt 2 ''2'' 0 17) > 1 / 1000"
    and e3: "\<not> despawn_e0 ellipse ?a (carAt 3 ''3'' 10 0) > 1 / 1000"
    by (simp_all add: scene_defs)
  have b1: "0 \<le> despawn_e1 ellipse ?a (carAt 1 ''1'' 0 16) \<and> outMidAreaCount (recordOf 1 2) + 1 \<le> USELESS_THRESHOLD"
    and b2: "0 \<le> despawn_e1 ellipse ?a (carAt 2 ''2'' 0 17) \<and> outMidAreaCount (recordOf 2 5) + 1 > USELESS_THRESHOLD"
    and b3: "despawn_e1 ellipse ?a (carAt 3 ''3'' 10 0) < 0"
    by (simp_all add: scene_defs)
  from despawn_hysteresis[OF d r m1 g1 e1 dv] b1
  have "(recordOf 1 2)\<lparr>outMidAreaCount := outMidAreaCount (recordOf 1 2) + 1\<rparr> \<in> set (spawnedV ?a')" by blast
  moreover from despawn_hysteresis[OF d r m2 g2 e2 dv] b2
  have "vehicleID (recordOf 2 5) \<notin> vehicleID ` set (spawnedV ?a')" by blast
  moreover from despawn_hysteresis[OF d r m3 g3 e3 dv] b3
  have "(recordOf 3 3)\<lparr>outMidAreaCount := 0\<rparr> \<in> set (spawnedV ?a')" by blast
  ultimately show ?thesis using r by (simp add: recordOf_def)
qed

text \<open>
  Six evaluations in a row of a vehicle that stays between the mid and the outer ellipse:
  it survives five of them, its counter going from 0 to 5, and the sixth erases it.
\<close>

lemma despawn_patience_run:
  "despawn ellipse t (ringScene [carAt 1 ''1'' 0 16] [recordOf 1 0]) = Some (ringScene [carAt 1 ''1'' 0 16] [recordOf 1 1], 0)
 \<and> despawn ellipse t (ringScene [carAt 1 ''1'' 0 16] [recordOf 1 1]) = Some (ringScene [carAt 1 ''1'' 0 16] [recordOf 1 2], 0)
 \<and> despawn ellipse t (ringScene [carAt 1 ''1'' 0 16] [recordOf 1 2]) = Some (ringScene [carAt 1 ''1'' 0 16] [recordOf 1 3], 0)
 \<and> despawn ellipse t (ringScene [carAt 1 ''1'' 0 16] [recordOf 1 3]) = Some (ringScene [carAt 1 ''1'' 0 16] [recordOf 1 4], 0)
 \<and> despawn ellipse t (ringScene [carAt 1 ''1'' 0 16] [recordOf 1 4]) = Some (ringScene [carAt 1 ''1'' 0 16] [recordOf 1 5], 0)
 \<and> despawn ellipse t (ringScene [carAt 1 ''1'' 0 16] [recordOf 1 5]) = Some (ringScene [] [], 1)"
  by (simp add: scene_defs)

text \<open>
  No record that survives an evaluation has a counter above the threshold, so the
  \<^verbatim>\<open>int\<close> counter never overflows.
\<close>

lemma despawnVerdict_count:
  "despawnVerdict e0 e1 info = (info', False) \<Longrightarrow> outMidAreaCount info' \<le> USELESS_THRESHOLD"
  by (auto simp: despawnVerdict_def Let_def USELESS_THRESHOLD_def split: if_splits)

lemma despawnLoop_count_bounded:
  "despawnLoop ell a l ents = Some (kept, ents', count) \<Longrightarrow> r \<in> set kept
     \<Longrightarrow> outMidAreaCount r \<le> USELESS_THRESHOLD"
proof (induction l arbitrary: ents kept ents' count)
  case Nil
  then show ?case by simp
next
  case (Cons info rest)
  from Cons.prems(1) obtain v where v: "GetObjectById ents (vehicleID info) = Some v"
    by (auto split: option.splits)
  obtain info' del where vd: "despawnVerdict (despawn_e0 ell a v) (despawn_e1 ell a v) info = (info', del)"
    by (cases "despawnVerdict (despawn_e0 ell a v) (despawn_e1 ell a v) info")
  show ?case
  proof (cases del)
    case True
    with Cons.prems v vd show ?thesis
      by (auto split: option.splits dest: Cons.IH)
  next
    case False
    with Cons.prems v vd despawnVerdict_count[of _ _ info info'] show ?thesis
      by (auto split: option.splits dest: Cons.IH)
  qed
qed

lemma despawn_count_bounded:
  "despawn ell t a = Some (a', n) \<Longrightarrow> r \<in> set (spawnedV a') \<Longrightarrow> outMidAreaCount r \<le> USELESS_THRESHOLD"
  by (auto simp: despawn_def split: option.splits dest: despawnLoop_count_bounded)


subsection \<open>Vehicles created by spawn\<close>

lemma getNewId_fold: "m \<le> fold (\<lambda>ob m. max m (obj_id ob + 1)) ents m
    \<and> (\<forall>ob\<in>set ents. obj_id ob < fold (\<lambda>ob m. max m (obj_id ob + 1)) ents m)"
proof (induction ents arbitrary: m)
  case Nil
  then show ?case by simp
next
  case (Cons x xs)
  from Cons.IH[of "max m (obj_id x + 1)"] show ?case by auto
qed

lemma getNewId_fresh: "ob \<in> set ents \<Longrightarrow> obj_id ob < getNewId ents"
  using getNewId_fold[of 0 ents] by (simp add: getNewId_def)

lemma find_append_fresh:
  "(\<And>x. x \<in> set xs \<Longrightarrow> \<not> P x) \<Longrightarrow> find P (xs @ ys) = find P ys"
  by (induction xs) auto

lemma find_append_found:
  "find P xs = Some v \<Longrightarrow> find P (xs @ ys) = Some v"
  by (induction xs) (auto split: if_splits)

lemma createVehicle_heading:
  "GetH (obj_pos (createVehicle odr p hdg_offset laneID speed model_filepath))
     = GetH p + real_of_int hdg_offset * M_PI"
  by (simp add: createVehicle_def SetLanePos_def SetInertiaPos_def XYZH2TrackPos_def split: prod.splits)

lemma GetObjectById_added:
  "GetObjectById (setName (snd (addObject ents ob)) (fst (addObject ents ob)) nm) (getNewId ents)
     = Some (ob\<lparr>obj_id := getNewId ents, obj_name := nm\<rparr>)"
proof -
  have "find (\<lambda>ob. obj_id ob = getNewId ents) (map (\<lambda>ob. if obj_id ob = getNewId ents then ob\<lparr>obj_name := nm\<rparr> else ob) ents @ [ob\<lparr>obj_id := getNewId ents, obj_name := nm\<rparr>])
    = find (\<lambda>ob. obj_id ob = getNewId ents) [ob\<lparr>obj_id := getNewId ents, obj_name := nm\<rparr>]"
    by (rule find_append_fresh) (use getNewId_fresh in force)
  then show ?thesis
    by (simp add: GetObjectById_def setName_def addObject_def Let_def)
qed

text \<open>
  Claim C6, as amended. Every vehicle that \<open>spawn\<close> instantiates, for a lane index that
  resolves to the lane id \<open>laneID\<close> at a candidate that passes \<open>ensureDistance\<close>, is
  registered under the id of its new record, and its heading is the heading of the
  candidate position, unmodified when the lane id is negative and offset by \<open>\<pi>\<close> when the
  lane id is non-negative.
\<close>

theorem spawnLane_heading:
  assumes "GetDrivingLaneByIdx (road sel) (GetS (pos sel)) laneIdx = Some laneID"
    and "ensureDistance a (pos sel) laneID = Some True"
  shows "\<exists>a' v. spawnLane odr t sel laneIdx a = Some a'
           \<and> spawnedV a' = spawnedV a @ [\<lparr>vehicleID = obj_id v, outMidAreaCount = 0,
                 roadID = GetTrackId (pos sel), lane = laneID, spawnSimTime = t\<rparr>]
           \<and> GetObjectById (entities a') (obj_id v) = Some v
           \<and> GetH (obj_pos v) = (if laneID < 0 then GetH (pos sel) else GetH (pos sel) + pi)"
proof -
  let ?car = "createVehicle odr (pos sel) (if laneID < 0 then 0 else 1) laneID (velocity a) ''car_red.osgb''"
  let ?i = "getNewId (entities a)"
  let ?v = "?car\<lparr>obj_id := ?i, obj_name := to_string ?i\<rparr>"
  let ?a' = "a\<lparr>entities := setName (snd (addObject (entities a) ?car)) ?i (to_string ?i),
                spawnedV := spawnedV a @ [\<lparr>vehicleID = ?i, outMidAreaCount = 0,
                  roadID = GetTrackId (pos sel), lane = laneID, spawnSimTime = t\<rparr>]\<rparr>"
  have fst_add: "fst (addObject (entities a) ?car) = ?i"
    by (simp add: addObject_def Let_def)
  have "spawnLane odr t sel laneIdx a = Some ?a'"
    using assms by (simp add: spawnLane_def addObject_def Let_def)
  moreover have "GetObjectById (entities ?a') (obj_id ?v) = Some ?v"
    using GetObjectById_added[of "entities a" ?car "to_string ?i"] fst_add by simp
  moreover have "GetH (obj_pos ?v) = (if laneID < 0 then GetH (pos sel) else GetH (pos sel) + pi)"
    by (simp add: createVehicle_heading M_PI_def)
  ultimately show ?thesis by (intro exI[of _ ?a'] exI[of _ ?v]) simp
qed

subsection \<open>The range of a draw\<close>

lemma uniform_int_distribution_range:
  "a \<le> b \<Longrightarrow> a \<le> fst (uniform_int_distribution a b g) \<and> fst (uniform_int_distribution a b g) \<le> b"
proof -
  assume ab: "a \<le> b"
  obtain r g' where d: "draw g = (r, g')" by (cases "draw g")
  have "0 < nat (b - a + 1)" using ab by simp
  then have "r mod nat (b - a + 1) < nat (b - a + 1)" by (rule mod_less_divisor)
  then have "int (r mod nat (b - a + 1)) < b - a + 1" using ab by linarith
  with d show ?thesis by (simp add: uniform_int_distribution_def)
qed

lemma sampleRoads_skip: "maxN < minN \<Longrightarrow> sampleRoads odr minN maxN sols info g = Some (info, g)"
  by (simp add: sampleRoads_def)

subsection \<open>Fewer solutions than the target\<close>

lemma drawLanesN_range:
  assumes "0 < lanesLeft" and "0 < nd"
  shows "0 \<le> fst (drawLanesN lanesLeft nd g) \<and> fst (drawLanesN lanesLeft nd g) < min lanesLeft nd"
proof -
  from assms have "0 \<le> min lanesLeft nd" by simp
  from uniform_int_distribution_range[OF this, of g] assms
  show ?thesis by (auto simp: drawLanesN_def split: prod.splits)
qed

lemma sampleAll_append:
  "sampleAll odr lanesLeft (xs @ ys) g =
     (case sampleAll odr lanesLeft xs g of
        None \<Rightarrow> None
      | Some (i1, l1, g1) \<Rightarrow>
          (case sampleAll odr l1 ys g1 of
             None \<Rightarrow> None
           | Some (i2, l2, g2) \<Rightarrow> Some (i1 @ i2, l2, g2)))"
proof (induction xs arbitrary: lanesLeft g)
  case Nil
  then show ?case by (simp split: option.splits)
next
  case (Cons pt xs)
  show ?case
    by (auto simp: Cons.IH split: option.splits prod.splits)
qed

lemma sampleAll_pool_positive:
  "0 < lanesLeft \<Longrightarrow> sampleAll odr lanesLeft xs g = Some (info, left, g') \<Longrightarrow> 0 < left"
proof (induction xs arbitrary: lanesLeft g info)
  case Nil
  then show ?case by simp
next
  case (Cons pt xs)
  from Cons.prems(2) obtain rd where rd: "GetRoadById odr (GetTrackId (pointPos odr pt)) = Some rd"
    by (auto split: option.splits)
  let ?nd = "int (GetNumberOfDrivingLanes rd (GetS (pointPos odr pt)))"
  show ?case
  proof (cases "?nd = 0")
    case True
    with Cons.prems rd have "sampleAll odr (lanesLeft + 1) xs g = Some (info, left, g')" by simp
    with Cons.IH[of "lanesLeft + 1"] Cons.prems(1) show ?thesis by simp
  next
    case False
    then have nd: "0 < ?nd" by simp
    obtain lanesN g1 where dl: "drawLanesN lanesLeft ?nd g = (lanesN, g1)"
      by (cases "drawLanesN lanesLeft ?nd g")
    with drawLanesN_range[OF Cons.prems(1) nd, of g] have "0 < lanesLeft - lanesN" by simp
    moreover from Cons.prems(2) rd False dl obtain info1 where
      "sampleAll odr (lanesLeft - lanesN) xs g1 = Some (info1, left, g')"
      by (auto split: option.splits)
    ultimately show ?thesis by (rule Cons.IH)
  qed
qed

text \<open>
  Claim C9. Let the target count exceed the number of solution points, and let \<open>pt\<close> be
  any of the solution points, after the points \<open>pre\<close> and before the points \<open>post\<close>.
  If \<open>sampleRoads\<close> returns, the loop has worked through \<open>pre\<close>, leaving a positive pool
  \<open>leftP\<close> of lanes, and then: if the road of \<open>pt\<close> has no driving lane at its arc-length,
  \<open>pt\<close> adds no selection and the loop goes on with the pool \<open>leftP + 1\<close>; otherwise
  \<open>pt\<close> gets one selection of \<open>1 + extra\<close> lanes with \<open>extra\<close> in
  \<open>[0, min leftP nDrivingLanes]\<close>, and the loop goes on with the pool \<open>leftP - extra\<close>.
\<close>

theorem sampleRoads_fewer_solutions:
  assumes "minN \<le> maxN"
    and "int (length (pre @ pt # post)) < nCarsToSpawn minN maxN g"
    and "sampleRoads odr minN maxN (pre @ pt # post) info0 g = Some (info, g')"
  shows "\<exists>rd infoP leftP gP infoQ left gQ.
      GetRoadById odr (GetTrackId (pointPos odr pt)) = Some rd
    \<and> sampleAll odr (nCarsToSpawn minN maxN g - int (length (pre @ pt # post))) pre
         (snd (uniform_int_distribution minN maxN g)) = Some (infoP, leftP, gP)
    \<and> 0 < leftP
    \<and> (if GetNumberOfDrivingLanes rd (GetS (pointPos odr pt)) = 0
       then info = infoP @ infoQ \<and> sampleAll odr (leftP + 1) post gP = Some (infoQ, left, g')
       else \<exists>extra. 0 \<le> extra
              \<and> extra \<le> min leftP (int (GetNumberOfDrivingLanes rd (GetS (pointPos odr pt))))
              \<and> info = infoP @ \<lparr>pos = pointPos odr pt, road = rd, nLanes = 1 + extra\<rparr> # infoQ
              \<and> sampleAll odr (leftP - extra) post gQ = Some (infoQ, left, g'))"
proof -
  let ?n = "nCarsToSpawn minN maxN g"
  let ?g1 = "snd (uniform_int_distribution minN maxN g)"
  let ?L = "?n - int (length (pre @ pt # post))"
  from assms obtain left where
    all: "sampleAll odr ?L (pre @ pt # post) ?g1 = Some (info, left, g')"
    by (auto simp: sampleRoads_def split: option.splits if_splits)
  from all obtain infoP leftP gP infoR where
    p: "sampleAll odr ?L pre ?g1 = Some (infoP, leftP, gP)"
    and r: "sampleAll odr leftP (pt # post) gP = Some (infoR, left, g')"
    and i: "info = infoP @ infoR"
    unfolding sampleAll_append[of odr ?L pre "pt # post"]
    by (auto split: option.splits)
  from assms(2) have "0 < ?L" by simp
  then have lp: "0 < leftP" using p by (rule sampleAll_pool_positive)
  from r obtain rd where rd: "GetRoadById odr (GetTrackId (pointPos odr pt)) = Some rd"
    by (auto split: option.splits)
  let ?nd = "GetNumberOfDrivingLanes rd (GetS (pointPos odr pt))"
  show ?thesis
  proof (cases "?nd = 0")
    case True
    with r rd have "sampleAll odr (leftP + 1) post gP = Some (infoR, left, g')" by simp
    with True rd p lp i show ?thesis by auto
  next
    case False
    then have nd: "0 < int ?nd" by simp
    obtain lanesN gQ where dl: "drawLanesN leftP (int ?nd) gP = (lanesN, gQ)"
      by (cases "drawLanesN leftP (int ?nd) gP")
    from drawLanesN_range[OF lp nd, of gP] dl
    have b: "0 \<le> lanesN \<and> lanesN \<le> min leftP (int ?nd)" by simp
    from r rd False dl obtain infoQ where
      "sampleAll odr (leftP - lanesN) post gQ = Some (infoQ, left, g')"
      and "infoR = \<lparr>pos = pointPos odr pt, road = rd, nLanes = 1 + lanesN\<rparr> # infoQ"
      by (auto split: option.splits)
    with False rd p lp i b show ?thesis by auto
  qed
qed


text \<open>
  The theorem on the straight road, for the lane index 1 (lane id 1) at the point
  \<open>(10, 0)\<close> with no vehicle around: the vehicle's heading is the road heading plus \<open>\<pi>\<close>.
\<close>

theorem spawnLane_heading_witness:
  "GetDrivingLaneByIdx (road \<lparr>pos = pointPos straightNet (solAt 10), road = straightRoad, nLanes = 1\<rparr>)
      (GetS (pos \<lparr>pos = pointPos straightNet (solAt 10), road = straightRoad, nLanes = 1\<rparr>)) 1 = Some 1
   \<and> ensureDistance (ringScene [] []) (pos \<lparr>pos = pointPos straightNet (solAt 10), road = straightRoad, nLanes = 1\<rparr>) 1
       = Some True
   \<and> (\<exists>a' v. spawnLane straightNet 0 \<lparr>pos = pointPos straightNet (solAt 10), road = straightRoad, nLanes = 1\<rparr> 1
                 (ringScene [] []) = Some a'
          \<and> GetObjectById (entities a') (obj_id v) = Some v
          \<and> GetH (obj_pos v) = GetH (pointPos straightNet (solAt 10)) + pi)"
proof -
  let ?sel = "\<lparr>pos = pointPos straightNet (solAt 10), road = straightRoad, nLanes = 1\<rparr>"
  have l: "GetDrivingLaneByIdx (road ?sel) (GetS (pos ?sel)) 1 = Some 1"
    by (simp add: straightRoad_def)
  have e: "ensureDistance (ringScene [] []) (pos ?sel) 1 = Some True"
    by (simp add: ensureDistance_def ringScene_def)
  from spawnLane_heading[OF l e, of straightNet 0] l e show ?thesis by auto
qed

text \<open>
  Claim C6 as stated fails: on the straight road, the vehicle spawned on the lane with the
  negative id -1 keeps the heading 0 of the candidate (no offset), and the one spawned on
  the lane with the positive id 1 has the heading \<open>\<pi>\<close>: the call passes
  \<^verbatim>\<open>(laneID < 0 ? 0 : 1)\<close> as \<^verbatim>\<open>hdg_offset\<close>.
\<close>

theorem spawnLane_heading_counterexample:
  "spawnLane straightNet 0 \<lparr>pos = pointPos straightNet (solAt 10), road = straightRoad, nLanes = 1\<rparr> 0
      (ringScene [] []) = Some (ringScene [carAt 0 ''0'' 10 0] [recordOf 0 0])
   \<and> lane (recordOf 0 0) < 0
   \<and> GetH (obj_pos (carAt 0 ''0'' 10 0)) = GetH (pointPos straightNet (solAt 10))
   \<and> GetH (obj_pos (carAt 0 ''0'' 10 0)) \<noteq> GetH (pointPos straightNet (solAt 10)) + pi
   \<and> spawnLane straightNet 0 \<lparr>pos = pointPos straightNet (solAt 10), road = straightRoad, nLanes = 1\<rparr> 1
      (ringScene [] [])
       = Some (ringScene [(carAt 0 ''0'' 10 0)\<lparr>obj_pos := (poseAt 10 0)\<lparr>GetH := pi, GetLaneId := 1\<rparr>\<rparr>]
                 [(recordOf 0 0)\<lparr>lane := 1\<rparr>])"
  by (simp add: road_defs scene_defs)

text \<open>
  The theorem on the straight road for a target of 5 and three solution points, the second
  one on the stretch without driving lanes: a pool of 2 lanes, of which the first point
  takes one extra lane; the second point returns its share.
\<close>

lemma sampleRoads_example:
  "sampleRoads straightNet 5 5 [solAt 10, solAt 97, solAt 50] [] [0, 2, 0]
     = Some ([\<lparr>pos = pointPos straightNet (solAt 10), road = straightRoad, nLanes = 2\<rparr>,
              \<lparr>pos = pointPos straightNet (solAt 50), road = straightRoad, nLanes = 1\<rparr>], [])"
  by (simp add: sampleRoads_def nCarsToSpawn_def uniform_int_distribution_def drawLanesN_def
      GetRoadById_def straightNet_def straightRoad_def solAt_def pointPos_def XYZH2TrackPos_def
      newPosition_def)

theorem sampleRoads_fewer_solutions_witness:
  "(5::int) \<le> 5
   \<and> int (length ([solAt 10] @ solAt 97 # [solAt 50])) < nCarsToSpawn 5 5 [0, 2, 0]
   \<and> sampleRoads straightNet 5 5 ([solAt 10] @ solAt 97 # [solAt 50]) [] [0, 2, 0]
       = Some ([\<lparr>pos = pointPos straightNet (solAt 10), road = straightRoad, nLanes = 2\<rparr>,
                \<lparr>pos = pointPos straightNet (solAt 50), road = straightRoad, nLanes = 1\<rparr>], [])
   \<and> (\<exists>infoP leftP gP infoQ left.
         sampleAll straightNet 2 [solAt 10] [2, 0] = Some (infoP, leftP, gP) \<and> 0 < leftP
         \<and> [\<lparr>pos = pointPos straightNet (solAt 10), road = straightRoad, nLanes = 2\<rparr>,
             \<lparr>pos = pointPos straightNet (solAt 50), road = straightRoad, nLanes = 1\<rparr>] = infoP @ infoQ
         \<and> sampleAll straightNet (leftP + 1) [solAt 50] gP = Some (infoQ, left, []))"
proof -
  have n: "nCarsToSpawn 5 5 [0, 2, 0] = 5" and g: "snd (uniform_int_distribution 5 5 [0, 2, 0]) = [2, 0]"
    by (simp_all add: nCarsToSpawn_def uniform_int_distribution_def)
  have h2: "int (length ([solAt 10] @ solAt 97 # [solAt 50])) < nCarsToSpawn 5 5 [0, 2, 0]"
    by (simp add: n)
  have h3: "sampleRoads straightNet 5 5 ([solAt 10] @ solAt 97 # [solAt 50]) [] [0, 2, 0]
       = Some ([\<lparr>pos = pointPos straightNet (solAt 10), road = straightRoad, nLanes = 2\<rparr>,
                \<lparr>pos = pointPos straightNet (solAt 50), road = straightRoad, nLanes = 1\<rparr>], [])"
    using sampleRoads_example by simp
  have rd: "GetRoadById straightNet (GetTrackId (pointPos straightNet (solAt 97))) = Some straightRoad"
    by (simp add: GetRoadById_def straightNet_def straightRoad_def solAt_def pointPos_def
        XYZH2TrackPos_def newPosition_def)
  have z: "GetNumberOfDrivingLanes straightRoad (GetS (pointPos straightNet (solAt 97))) = 0"
    by (simp add: straightNet_def straightRoad_def solAt_def pointPos_def XYZH2TrackPos_def newPosition_def)
  from sampleRoads_fewer_solutions[OF _ h2 h3] rd z h2 h3 show ?thesis
    by (auto simp: n g)
qed


subsection \<open>Spacing\<close>

text \<open>
  When \<open>ensureDistance\<close> answers true, every record on the candidate's road and lane has
  a vehicle in the repository, more than \<open>VHEICLE_DISTANCE\<close> away from the candidate.
\<close>

lemma ensureDistanceLoop_True:
  "ensureDistanceLoop ents rs p laneID = Some True \<Longrightarrow> r \<in> set rs \<Longrightarrow> lane r = laneID
     \<Longrightarrow> roadID r = GetTrackId p
     \<Longrightarrow> \<exists>v. GetObjectById ents (vehicleID r) = Some v
           \<and> \<bar>GetS (obj_pos v) - GetS p\<bar> > VHEICLE_DISTANCE"
proof (induction rs)
  case Nil
  then show ?case by simp
next
  case (Cons x xs)
  show ?case
  proof (cases "r = x")
    case True
    with Cons.prems show ?thesis by (auto split: option.splits if_splits)
  next
    case False
    with Cons.prems have "r \<in> set xs" by simp
    moreover from Cons.prems(1) have "ensureDistanceLoop ents xs p laneID = Some True"
      by (auto split: option.splits if_splits)
    ultimately show ?thesis using Cons.prems(3,4) Cons.IH by blast
  qed
qed

lemma ensureDistance_close:
  assumes "ensureDistance a p laneID = Some b" and "r \<in> set (spawnedV a)" and "lane r = laneID"
    and "roadID r = GetTrackId p" and "GetObjectById (entities a) (vehicleID r) = Some v"
    and "\<bar>GetS (obj_pos v) - GetS p\<bar> \<le> VHEICLE_DISTANCE"
  shows "\<not> b"
proof
  assume b
  with assms(1) have "ensureDistanceLoop (entities a) (spawnedV a) p laneID = Some True"
    by (simp add: ensureDistance_def)
  from ensureDistanceLoop_True[OF this assms(2,3,4)] assms(5,6) show False by simp
qed

lemma spawnLane_reject:
  assumes "GetDrivingLaneByIdx (road sel) (GetS (pos sel)) laneIdx = Some laneID"
    and "ensureDistance a (pos sel) laneID = Some False"
  shows "spawnLane odr t sel laneIdx a = Some a"
  using assms by (simp add: spawnLane_def)

lemma wellSpaced_append:
  "wellSpaced ents (rs @ [n]) \<longleftrightarrow> wellSpaced ents rs \<and> (\<forall>r\<in>set rs. spaced ents r n)"
  by (induction rs) auto

lemma spaced_cong:
  "recordS ents' r = recordS ents r \<Longrightarrow> recordS ents' r' = recordS ents r'
     \<Longrightarrow> spaced ents' r r' = spaced ents r r'"
  by (simp add: spaced_def split: option.splits)

lemma wellSpaced_cong:
  "(\<And>r. r \<in> set rs \<Longrightarrow> recordS ents' r = recordS ents r) \<Longrightarrow> wellSpaced ents' rs = wellSpaced ents rs"
proof (induction rs)
  case Nil
  then show ?case by simp
next
  case (Cons x xs)
  have "spaced ents' x r' = spaced ents x r'" if "r' \<in> set xs" for r'
    using that Cons.prems by (intro spaced_cong) simp_all
  moreover have "wellSpaced ents' xs = wellSpaced ents xs"
    using Cons.prems by (intro Cons.IH) simp
  ultimately show ?case by simp
qed

lemma find_map_id:
  assumes "\<And>x. P (f x) = P x" and "\<And>x. P x \<Longrightarrow> f x = x"
  shows "find P (map f xs) = find P xs"
  using assms by (induction xs) auto

lemma find_snoc_other: "\<not> P c \<Longrightarrow> find P (xs @ [c]) = find P xs"
  by (induction xs) auto

lemma GetObjectById_other:
  assumes "j \<noteq> getNewId ents"
  shows "GetObjectById (setName (snd (addObject ents ob)) (fst (addObject ents ob)) nm) j = GetObjectById ents j"
proof -
  let ?i = "getNewId ents"
  let ?f = "\<lambda>ob. if obj_id ob = ?i then ob\<lparr>obj_name := nm\<rparr> else ob"
  have "find (\<lambda>ob. obj_id ob = j) (map ?f (ents @ [ob\<lparr>obj_id := ?i\<rparr>]))
      = find (\<lambda>ob. obj_id ob = j) (ents @ [ob\<lparr>obj_id := ?i\<rparr>])"
    by (rule find_map_id) (use assms in auto)
  also have "\<dots> = find (\<lambda>ob. obj_id ob = j) ents"
    using assms by (intro find_snoc_other) simp
  finally show ?thesis
    by (simp add: GetObjectById_def setName_def addObject_def Let_def)
qed

lemma GetObjectById_mem: "GetObjectById ents j = Some v \<Longrightarrow> v \<in> set ents \<and> obj_id v = j"
  unfolding GetObjectById_def by (rule find_Some_mem)

lemma live_not_new:
  "recordsLive ents rs \<Longrightarrow> r \<in> set rs \<Longrightarrow> vehicleID r \<noteq> getNewId ents"
proof
  assume l: "recordsLive ents rs" and r: "r \<in> set rs" and e: "vehicleID r = getNewId ents"
  from l r obtain v where "GetObjectById ents (vehicleID r) = Some v"
    by (auto simp: recordsLive_def)
  then have "v \<in> set ents \<and> obj_id v = vehicleID r" by (rule GetObjectById_mem)
  with getNewId_fresh[of v ents] e show False by simp
qed

lemma createVehicle_S:
  "headingFree odr \<Longrightarrow> consistentPos odr p
     \<Longrightarrow> GetS (obj_pos (createVehicle odr p hdg_offset laneID speed model_filepath)) = GetS p"
proof -
  assume h: "headingFree odr" and c: "consistentPos odr p"
  have "GetS (obj_pos (createVehicle odr p hdg_offset laneID speed model_filepath))
      = snd (snd (XYZH2Track odr (GetX p) (GetY p) 0 (GetH p + real_of_int hdg_offset * M_PI)))"
    by (simp add: createVehicle_def SetLanePos_def SetInertiaPos_def XYZH2TrackPos_def split: prod.splits)
  also have "\<dots> = snd (snd (XYZH2Track odr (GetX p) (GetY p) 0 (GetH p)))"
    using h unfolding headingFree_def by blast
  finally show ?thesis using c by (simp add: consistentPos_def)
qed

lemma spawnLane_invariant:
  assumes hf: "headingFree odr" and cp: "consistentPos odr (pos sel)"
    and live: "recordsLive (entities a) (spawnedV a)"
    and ws: "wellSpaced (entities a) (spawnedV a)"
    and res: "spawnLane odr t sel laneIdx a = Some a'"
  shows "wellSpaced (entities a') (spawnedV a') \<and> recordsLive (entities a') (spawnedV a')"
proof (cases "GetDrivingLaneByIdx (road sel) (GetS (pos sel)) laneIdx")
  case None
  with res live ws show ?thesis by (simp add: spawnLane_def)
next
  case (Some laneID)
  from res Some obtain ok where ok: "ensureDistance a (pos sel) laneID = Some ok"
    by (auto simp: spawnLane_def split: option.splits)
  show ?thesis
  proof (cases ok)
    case False
    with res Some ok live ws show ?thesis by (simp add: spawnLane_def)
  next
    case True
    let ?ents = "entities a" and ?rs = "spawnedV a"
    let ?car = "createVehicle odr (pos sel) (if laneID < 0 then 0 else 1) laneID (velocity a) ''car_red.osgb''"
    let ?i = "getNewId ?ents"
    let ?ents' = "setName (snd (addObject ?ents ?car)) (fst (addObject ?ents ?car)) (to_string ?i)"
    let ?new = "\<lparr>vehicleID = ?i, outMidAreaCount = 0, roadID = GetTrackId (pos sel),
                  lane = laneID, spawnSimTime = t\<rparr>"
    have fst_add: "fst (addObject ?ents ?car) = ?i" by (simp add: addObject_def Let_def)
    from res Some ok True have a': "a' = a\<lparr>entities := ?ents', spawnedV := ?rs @ [?new]\<rparr>"
      by (simp add: spawnLane_def addObject_def Let_def)
    have old: "GetObjectById ?ents' (vehicleID r) = GetObjectById ?ents (vehicleID r)"
      if "r \<in> set ?rs" for r
      using live_not_new[OF live that] by (rule GetObjectById_other)
    have oldS: "recordS ?ents' r = recordS ?ents r" if "r \<in> set ?rs" for r
      using old[OF that] by (simp add: recordS_def)
    have newS: "recordS ?ents' ?new = Some (GetS (pos sel))"
      using GetObjectById_added[of ?ents ?car "to_string ?i"] createVehicle_S[OF hf cp]
      by (simp add: recordS_def fst_add)
    have far: "spaced ?ents' r ?new" if r: "r \<in> set ?rs" for r
    proof (cases "lane r = laneID \<and> roadID r = GetTrackId (pos sel)")
      case False
      then show ?thesis by (auto simp: spaced_def)
    next
      case same: True
      from ok True have "ensureDistanceLoop ?ents ?rs (pos sel) laneID = Some True"
        by (simp add: ensureDistance_def)
      from ensureDistanceLoop_True[OF this r] same obtain v where
        "GetObjectById ?ents (vehicleID r) = Some v"
        "\<bar>GetS (obj_pos v) - GetS (pos sel)\<bar> > VHEICLE_DISTANCE" by auto
      then have "recordS ?ents r = Some (GetS (obj_pos v))" by (simp add: recordS_def)
      with oldS[OF r] newS \<open>\<bar>GetS (obj_pos v) - GetS (pos sel)\<bar> > VHEICLE_DISTANCE\<close>
      show ?thesis by (simp add: spaced_def)
    qed
    have "wellSpaced ?ents' ?rs" using wellSpaced_cong[of ?rs ?ents' ?ents] oldS ws by simp
    with far have w: "wellSpaced ?ents' (?rs @ [?new])" by (simp add: wellSpaced_append)
    have l: "recordsLive ?ents' (?rs @ [?new])"
      using live old GetObjectById_added[of ?ents ?car "to_string ?i"]
      by (auto simp: recordsLive_def fst_add)
    from w l a' show ?thesis by simp
  qed
qed

lemma spawnLanes_invariant:
  "headingFree odr \<Longrightarrow> consistentPos odr (pos sel)
   \<Longrightarrow> recordsLive (entities a) (spawnedV a) \<Longrightarrow> wellSpaced (entities a) (spawnedV a)
   \<Longrightarrow> spawnLanes odr t sel lanes a = Some a'
   \<Longrightarrow> wellSpaced (entities a') (spawnedV a') \<and> recordsLive (entities a') (spawnedV a')"
proof (induction lanes arbitrary: a)
  case Nil
  then show ?case by simp
next
  case (Cons laneIdx rest)
  from Cons.prems(5) obtain a1 where s1: "spawnLane odr t sel laneIdx a = Some a1"
    and s2: "spawnLanes odr t sel rest a1 = Some a'"
    by (auto split: option.splits)
  from spawnLane_invariant[OF Cons.prems(1,2,3,4) s1]
  show ?case using Cons.IH[OF Cons.prems(1,2) _ _ s2] by simp
qed

lemma spawnAll_invariant:
  "headingFree odr \<Longrightarrow> (\<And>sel. sel \<in> set info \<Longrightarrow> consistentPos odr (pos sel))
   \<Longrightarrow> recordsLive (entities a) (spawnedV a) \<Longrightarrow> wellSpaced (entities a) (spawnedV a)
   \<Longrightarrow> spawnAll odr t info a g = Some (a', g')
   \<Longrightarrow> wellSpaced (entities a') (spawnedV a') \<and> recordsLive (entities a') (spawnedV a')"
proof (induction info arbitrary: a g)
  case Nil
  then show ?case by simp
next
  case (Cons sel rest)
  from Cons.prems(5) obtain lanes g1 a1 where
    s1: "spawnLanes odr t sel lanes a = Some a1" and s2: "spawnAll odr t rest a1 g1 = Some (a', g')"
    by (auto split: option.splits prod.splits if_splits)
  have c: "consistentPos odr (pos sel)" by (rule Cons.prems(2)) simp
  from spawnLanes_invariant[OF Cons.prems(1) c Cons.prems(3,4) s1]
  show ?case using Cons.IH[OF Cons.prems(1) _ _ _ s2] Cons.prems(2) by simp
qed

lemma pointPos_consistent: "consistentPos odr (pointPos odr pt)"
  by (simp add: consistentPos_def pointPos_def XYZH2TrackPos_def split: prod.splits)

lemma sampleSelected_consistent:
  "sampleSelected odr pts = Some info \<Longrightarrow> sel \<in> set info \<Longrightarrow> consistentPos odr (pos sel)"
proof (induction pts arbitrary: info)
  case Nil
  then show ?case by simp
next
  case (Cons pt pts)
  then show ?case
    by (auto simp: pointPos_consistent split: option.splits if_splits)
qed

lemma sampleAll_consistent:
  "sampleAll odr lanesLeft pts g = Some (info, left, g') \<Longrightarrow> sel \<in> set info
     \<Longrightarrow> consistentPos odr (pos sel)"
proof (induction pts arbitrary: info lanesLeft g)
  case Nil
  then show ?case by simp
next
  case (Cons pt pts)
  then show ?case
    by (auto simp: pointPos_consistent split: option.splits if_splits prod.splits)
qed

lemma sampleRoads_consistent:
  "sampleRoads odr minN maxN sols [] g = Some (info, g') \<Longrightarrow> sel \<in> set info
     \<Longrightarrow> consistentPos odr (pos sel)"
  by (auto simp: sampleRoads_def split: if_splits option.splits prod.splits
      dest: sampleSelected_consistent sampleAll_consistent)

lemma spawn_invariant:
  assumes "headingFree odr" and "recordsLive (entities a) (spawnedV a)"
    and "wellSpaced (entities a) (spawnedV a)" and "spawn odr sols replace t a g = Some (a', g')"
  shows "wellSpaced (entities a') (spawnedV a') \<and> recordsLive (entities a') (spawnedV a')"
proof (cases "numberOfVehicles a - int (length (spawnedV a)) \<le> 0")
  case True
  with assms show ?thesis by (simp add: spawn_def)
next
  case False
  with assms(4) obtain info g1 where
    sr: "sampleRoads odr replace (numberOfVehicles a - int (length (spawnedV a))) sols [] g = Some (info, g1)"
    and sa: "spawnAll odr t info a g1 = Some (a', g')"
    by (auto simp: spawn_def split: option.splits)
  show ?thesis
    using assms(1) sampleRoads_consistent[OF sr] assms(2,3) sa by (rule spawnAll_invariant)
qed


text \<open>
  Claim C4. A candidate \<open>(pos sel, laneID)\<close> for which some active record on the same road
  and lane has its vehicle within \<open>VHEICLE_DISTANCE = 12\<close> of the candidate's arc-length is
  rejected: \<open>ensureDistance\<close> answers false and the loop body leaves the action as it
  was. Consequently \<open>spawn\<close> keeps the spacing: if, at entry, every record has its vehicle
  in the repository and every two records on the same road and lane are more than 12
  apart, the same holds when \<open>spawn\<close> returns. The second part is for a road network
  whose arc-length conversion does not depend on the heading.
\<close>

theorem spawn_spacing:
  "(r \<in> set (spawnedV a) \<and> lane r = laneID \<and> roadID r = GetTrackId (pos sel)
      \<and> GetObjectById (entities a) (vehicleID r) = Some v
      \<and> \<bar>GetS (obj_pos v) - GetS (pos sel)\<bar> \<le> VHEICLE_DISTANCE
      \<and> GetDrivingLaneByIdx (road sel) (GetS (pos sel)) laneIdx = Some laneID
      \<and> spawnLane odr t sel laneIdx a = Some a1
    \<longrightarrow> ensureDistance a (pos sel) laneID = Some False \<and> a1 = a)
   \<and> (headingFree odr \<and> recordsLive (entities a) (spawnedV a)
      \<and> wellSpaced (entities a) (spawnedV a) \<and> spawn odr sols replace t a g = Some (a', g')
    \<longrightarrow> wellSpaced (entities a') (spawnedV a') \<and> recordsLive (entities a') (spawnedV a'))"
proof (intro conjI impI)
  assume h: "r \<in> set (spawnedV a) \<and> lane r = laneID \<and> roadID r = GetTrackId (pos sel)
      \<and> GetObjectById (entities a) (vehicleID r) = Some v
      \<and> \<bar>GetS (obj_pos v) - GetS (pos sel)\<bar> \<le> VHEICLE_DISTANCE
      \<and> GetDrivingLaneByIdx (road sel) (GetS (pos sel)) laneIdx = Some laneID
      \<and> spawnLane odr t sel laneIdx a = Some a1"
  then obtain ok where ok: "ensureDistance a (pos sel) laneID = Some ok"
    by (auto simp: spawnLane_def split: option.splits)
  with h have "\<not> ok" using ensureDistance_close[of a "pos sel" laneID ok r v] by blast
  with ok show "ensureDistance a (pos sel) laneID = Some False" by simp
  with h spawnLane_reject[of sel laneIdx laneID a odr t] show "a1 = a" by simp
next
  assume "headingFree odr \<and> recordsLive (entities a) (spawnedV a)
      \<and> wellSpaced (entities a) (spawnedV a) \<and> spawn odr sols replace t a g = Some (a', g')"
  then have i: "wellSpaced (entities a') (spawnedV a') \<and> recordsLive (entities a') (spawnedV a')"
    using spawn_invariant[of odr a sols replace t g a' g'] by blast
  from i show "wellSpaced (entities a') (spawnedV a')" ..
  from i show "recordsLive (entities a') (spawnedV a')" ..
qed

text \<open>
  Two runs of \<open>spawn\<close> on the straight road with a fleet of 3, a quota of 0 and a target
  of 2: of two solution points 5 apart, only the first gets a vehicle; two points 80 apart
  both do.
\<close>

lemma spawn_close_pair:
  "spawn straightNet [solAt 10, solAt 15] 0 0 (ringScene [] []) [2]
     = Some (ringScene [carAt 0 ''0'' 10 0] [recordOf 0 0], [])"
  by (simp add: spawn_defs road_defs scene_defs)

lemma spawn_far_pair:
  "spawn straightNet [solAt 10, solAt 90] 0 0 (ringScene [] []) [2]
     = Some (ringScene [carAt 0 ''0'' 10 0, carAt 1 ''1'' 90 0] [recordOf 0 0, recordOf 1 0], [])"
  by (simp add: spawn_defs road_defs scene_defs)

text \<open>
  Claim C10 fails on the code. With a fleet of 1, no active vehicle, a quota of 0 and two
  solution points, the target drawn from \<open>[0, 1]\<close> can be 0; the test
  \<^verbatim>\<open>nCarsToSpawn > 0\<close> then sends the call to the branch for fewer points than
  vehicles, where \<^verbatim>\<open>lanesLeft\<close> starts at -2 and every point still gets one lane: two
  vehicles are spawned, one more than the fleet.
\<close>

theorem spawn_exceeds_fleet:
  "int (length (spawnedV ((ringScene [] [])\<lparr>numberOfVehicles := 1\<rparr>)))
      \<le> numberOfVehicles ((ringScene [] [])\<lparr>numberOfVehicles := 1\<rparr>)
   \<and> nCarsToSpawn 0 1 [] = 0
   \<and> spawn straightNet [solAt 10, solAt 90] 0 0 ((ringScene [] [])\<lparr>numberOfVehicles := 1\<rparr>) []
       = Some ((ringScene [carAt 0 ''0'' 10 0, carAt 1 ''1'' 90 0] [recordOf 0 0, recordOf 1 0])
                 \<lparr>numberOfVehicles := 1\<rparr>, [])
   \<and> numberOfVehicles ((ringScene [carAt 0 ''0'' 10 0, carAt 1 ''1'' 90 0] [recordOf 0 0, recordOf 1 0])
                 \<lparr>numberOfVehicles := 1\<rparr>)
       < int (length (spawnedV ((ringScene [carAt 0 ''0'' 10 0, carAt 1 ''1'' 90 0]
                 [recordOf 0 0, recordOf 1 0])\<lparr>numberOfVehicles := 1\<rparr>)))"
  by (simp add: spawn_defs road_defs scene_defs)

lemma headingFree_straightNet: "headingFree straightNet"
  by (simp add: headingFree_def straightNet_def)

text \<open>
  The theorem on the straight road: next to a vehicle at arc-length 10 on lane -1, the
  candidate at 15 on the same lane is rejected; and the run of \<open>spawn\<close> above that
  creates two vehicles 80 apart ends well spaced.
\<close>

theorem spawn_spacing_witness:
  "recordOf 0 0 \<in> set (spawnedV (ringScene [carAt 0 ''0'' 10 0] [recordOf 0 0]))
   \<and> \<bar>GetS (obj_pos (carAt 0 ''0'' 10 0)) - GetS (pointPos straightNet (solAt 15))\<bar> \<le> VHEICLE_DISTANCE
   \<and> spawnLane straightNet 0 \<lparr>pos = pointPos straightNet (solAt 15), road = straightRoad, nLanes = 1\<rparr> 0
        (ringScene [carAt 0 ''0'' 10 0] [recordOf 0 0])
       = Some (ringScene [carAt 0 ''0'' 10 0] [recordOf 0 0])
   \<and> ensureDistance (ringScene [carAt 0 ''0'' 10 0] [recordOf 0 0]) (pointPos straightNet (solAt 15)) (- 1)
       = Some False
   \<and> headingFree straightNet
   \<and> spawn straightNet [solAt 10, solAt 90] 0 0 (ringScene [] []) [2]
       = Some (ringScene [carAt 0 ''0'' 10 0, carAt 1 ''1'' 90 0] [recordOf 0 0, recordOf 1 0], [])
   \<and> wellSpaced [carAt 0 ''0'' 10 0, carAt 1 ''1'' 90 0] [recordOf 0 0, recordOf 1 0]
   \<and> recordsLive [carAt 0 ''0'' 10 0, carAt 1 ''1'' 90 0] [recordOf 0 0, recordOf 1 0]"
proof -
  let ?a = "ringScene [carAt 0 ''0'' 10 0] [recordOf 0 0]"
  let ?sel = "\<lparr>pos = pointPos straightNet (solAt 15), road = straightRoad, nLanes = 1\<rparr>"
  have p1: "recordOf 0 0 \<in> set (spawnedV ?a) \<and> lane (recordOf 0 0) = - 1
      \<and> roadID (recordOf 0 0) = GetTrackId (pos ?sel)
      \<and> GetObjectById (entities ?a) (vehicleID (recordOf 0 0)) = Some (carAt 0 ''0'' 10 0)
      \<and> \<bar>GetS (obj_pos (carAt 0 ''0'' 10 0)) - GetS (pos ?sel)\<bar> \<le> VHEICLE_DISTANCE
      \<and> GetDrivingLaneByIdx (road ?sel) (GetS (pos ?sel)) 0 = Some (- 1)
      \<and> spawnLane straightNet 0 ?sel 0 ?a = Some ?a"
    by (simp add: road_defs scene_defs VHEICLE_DISTANCE_def)
  let ?b = "ringScene [] []"
  have p2: "headingFree straightNet \<and> recordsLive (entities ?b) (spawnedV ?b)
      \<and> wellSpaced (entities ?b) (spawnedV ?b)
      \<and> spawn straightNet [solAt 10, solAt 90] 0 0 ?b [2]
          = Some (ringScene [carAt 0 ''0'' 10 0, carAt 1 ''1'' 90 0] [recordOf 0 0, recordOf 1 0], [])"
    using headingFree_straightNet spawn_far_pair by (simp add: recordsLive_def ringScene_def)
  from spawn_spacing[where r = "recordOf 0 0" and a = ?a and laneID = "- 1" and sel = ?sel
      and v = "carAt 0 ''0'' 10 0" and laneIdx = 0 and odr = straightNet and t = 0 and ?a1.0 = ?a] p1
  have c1: "ensureDistance ?a (pos ?sel) (- 1) = Some False" by blast
  from spawn_spacing[where a = ?b and odr = straightNet and t = 0 and sols = "[solAt 10, solAt 90]"
      and replace = 0 and g = "[2]" and g' = "[]"
      and a' = "ringScene [carAt 0 ''0'' 10 0, carAt 1 ''1'' 90 0] [recordOf 0 0, recordOf 1 0]"] p2
  have c2: "wellSpaced (entities (ringScene [carAt 0 ''0'' 10 0, carAt 1 ''1'' 90 0] [recordOf 0 0, recordOf 1 0]))
      (spawnedV (ringScene [carAt 0 ''0'' 10 0, carAt 1 ''1'' 90 0] [recordOf 0 0, recordOf 1 0]))
    \<and> recordsLive (entities (ringScene [carAt 0 ''0'' 10 0, carAt 1 ''1'' 90 0] [recordOf 0 0, recordOf 1 0]))
      (spawnedV (ringScene [carAt 0 ''0'' 10 0, carAt 1 ''1'' 90 0] [recordOf 0 0, recordOf 1 0]))"
    by blast
  from p1 p2 c1 c2
  show ?thesis by (simp add: ringScene_def)
qed


subsection \<open>Rounding to binary64\<close>

text \<open>
  The rounding is to nearest and ties to even: \<open>rne m k\<close> is within half a unit of
  \<open>m / 2 ^ k\<close>, and even when \<open>m / 2 ^ k\<close> lies half-way between two integers. The number
  of bits that \<open>fl\<close> drops is the least that leaves at most 53, so that the mantissa of a
  rounded number is below \<open>2 ^ 53\<close>, or is \<open>2 ^ 53\<close> after a carry.
\<close>

lemma rne_nearest: "\<bar>2 * (m - rne m k * 2 ^ k)\<bar> \<le> 2 ^ k"
proof -
  define P where "P = (2::int) ^ k"
  define q where "q = m div P"
  define r where "r = m mod P"
  have P: "0 < P" by (simp add: P_def)
  have m: "m = q * P + r" by (simp add: q_def r_def)
  have r: "0 \<le> r" "r < P" using P by (simp_all add: r_def)
  have rn: "rne m k = (if 2 * r < P then q else if 2 * r > P then q + 1
          else if even q then q else q + 1)"
    by (simp add: rne_def P_def q_def r_def)
  have "\<bar>2 * (q * P + r - (if 2 * r < P then q else if 2 * r > P then q + 1
          else if even q then q else q + 1) * P)\<bar> \<le> P"
    using r by (auto simp: algebra_simps)
  then have "\<bar>2 * (m - rne m k * P)\<bar> \<le> P" by (simp only: rn m [symmetric])
  then show ?thesis by (simp only: P_def)
qed

lemma rne_tie_even: "2 * (m mod 2 ^ k) = 2 ^ k \<Longrightarrow> even (rne m k)"
  by (simp add: rne_def)

lemma excess_ge: "k \<le> excess m k"
proof (induction m k rule: excess.induct)
  case (1 m k)
  show ?case
  proof (cases "\<bar>m\<bar> < 2 ^ (53 + k)")
    case True
    then show ?thesis by (subst excess.simps) simp
  next
    case False
    with 1 have "k + 1 \<le> excess m (k + 1)" by simp
    with False show ?thesis by (subst excess.simps) simp
  qed
qed

lemma excess_fits: "\<bar>m\<bar> < 2 ^ (53 + excess m k)"
proof (induction m k rule: excess.induct)
  case (1 m k)
  show ?case
  proof (cases "\<bar>m\<bar> < 2 ^ (53 + k)")
    case True
    then show ?thesis by (subst excess.simps) simp
  next
    case False
    with 1 have "\<bar>m\<bar> < 2 ^ (53 + excess m (k + 1))" by simp
    with False show ?thesis by (subst excess.simps) simp
  qed
qed

lemma excess_least: "k < excess m k \<Longrightarrow> 2 ^ (53 + excess m k - 1) \<le> \<bar>m\<bar>"
proof (induction m k rule: excess.induct)
  case (1 m k)
  show ?case
  proof (cases "\<bar>m\<bar> < 2 ^ (53 + k)")
    case True
    then have "excess m k = k" by (subst excess.simps) simp
    with "1.prems" show ?thesis by simp
  next
    case False
    then have e: "excess m k = excess m (k + 1)" by (subst excess.simps) simp
    show ?thesis
    proof (cases "k + 1 < excess m (k + 1)")
      case True
      with 1 False e show ?thesis by simp
    next
      case no: False
      with excess_ge[of "k + 1" m] have "excess m (k + 1) = k + 1" by simp
      with e False show ?thesis by simp
    qed
  qed
qed

lemma fl_mant: "\<bar>mant (fl m e)\<bar> \<le> 2 ^ 53"
proof -
  define k where "k = excess m 0"
  define P where "P = (2::int) ^ k"
  define C where "C = (2::int) ^ 53"
  define R where "R = rne m k"
  define x where "x = R * P"
  define y where "y = C * P"
  have P: "0 < P" by (simp add: P_def)
  from excess_fits[of m 0] have a1: "\<bar>m\<bar> < y"
    by (simp add: k_def P_def C_def y_def power_add)
  from rne_nearest[of m k] have a2: "\<bar>2 * (m - x)\<bar> \<le> P" by (simp only: P_def R_def x_def)
  from a1 have b1: "m < y" "- y < m" by (simp_all add: abs_less_iff)
  from a2 have b2: "2 * (m - x) \<le> P" "- P \<le> 2 * (m - x)" by (simp_all add: abs_le_iff)
  from b1 b2 have "2 * x < 2 * y + P" by presburger
  moreover from b1 b2 have "- (2 * y + P) < 2 * x" by presburger
  ultimately have "(2 * R) * P < (2 * C + 1) * P" and "(- (2 * C + 1)) * P < (2 * R) * P"
    by (simp_all add: algebra_simps x_def y_def)
  with P have "2 * R < 2 * C + 1" and "- (2 * C + 1) < 2 * R"
    by (simp_all only: mult_less_cancel_right_pos)
  then have "\<bar>R\<bar> \<le> C" by linarith
  then show ?thesis by (simp add: fl_def k_def R_def C_def)
qed

text \<open>The constant is the binary64 number nearest to the literal of the macro.\<close>

lemma M_PI_double_nearest:
  "\<bar>valof M_PI_double - 314159265358979323846 / 10 ^ 20\<bar> < 1 / 2 ^ 52"
  by (simp add: valof_def M_PI_double_def)


subsection \<open>Ellipse ring\<close>

text \<open>The three constants of the sampler, computed.\<close>

lemmas double_defs = fl_def rne_def aligned_def dadd_def dsub_def dneg_def dmul_def dless_def ddiv_def
  quotShift_def M_PI_double_def bitlen.simps excess.simps

lemma ellipseStop_value: "ellipseStop = Double 7025111100972687 (- 50)"
  by (simp add: ellipseStop_def double_defs)

lemma dAlpha_value: "dAlpha = Double 6288211335136391 (- 56)"
  by (simp add: dAlpha_def double_defs)

lemma ellipseStart_value: "ellipseStart = Double (- 6288211335136391) (- 57)"
  by (simp add: ellipseStart_def double_defs)

lemma ellipseEnd_value:
  "ellipseEnd (Double m e) =
     (if dless (Double 7025111100972687 (- 50)) (dadd (Double m e) (Double 6288211335136391 (- 56)))
      then Double 7025111100972687 (- 50) else dadd (Double m e) (Double 6288211335136391 (- 56)))"
  by (simp add: ellipseEnd_def ellipseStop_value dAlpha_value)

lemma ellipseRun_unfold:
  "ellipseRun n alpha acc =
     (if dless alpha ellipseStop then
        (if n = 0 then None else ellipseRun (n - 1) (ellipseEnd alpha) (acc @ [(alpha, ellipseEnd alpha)]))
      else Some acc)"
  by (cases n) simp_all

text \<open>
  The run of the loop from \<open>alpha = -M_PI / 72\<close>: 73 iterations. After 72 additions of
  the step the angle is \<open>7025111100972681 / 2^50\<close>, six units in the last place below the
  bound \<open>7025111100972687 / 2^50\<close>, so the loop is entered once more and the clamp closes
  the ring with the segment between the two.
\<close>

lemma ellipseRun_73:
  "ellipseRun 73 ellipseStart [] = Some
      [(Double (- 6288211335136391) (- 57), Double 6288211335136391 (- 57)),
       (Double 6288211335136391 (- 57), Double 4716158501352293 (- 55)),
       (Double 4716158501352293 (- 55), Double 7860264168920488 (- 55)),
       (Double 7860264168920488 (- 55), Double 5502184918244342 (- 54)),
       (Double 5502184918244342 (- 54), Double 7074237752028440 (- 54)),
       (Double 7074237752028440 (- 54), Double 8646290585812538 (- 54)),
       (Double 8646290585812538 (- 54), Double 5109171709798318 (- 53)),
       (Double 5109171709798318 (- 53), Double 5895198126690367 (- 53)),
       (Double 5895198126690367 (- 53), Double 6681224543582416 (- 53)),
       (Double 6681224543582416 (- 53), Double 7467250960474465 (- 53)),
       (Double 7467250960474465 (- 53), Double 8253277377366514 (- 53)),
       (Double 8253277377366514 (- 53), Double 4519651897129281 (- 52)),
       (Double 4519651897129281 (- 52), Double 4912665105575305 (- 52)),
       (Double 4912665105575305 (- 52), Double 5305678314021329 (- 52)),
       (Double 5305678314021329 (- 52), Double 5698691522467353 (- 52)),
       (Double 5698691522467353 (- 52), Double 6091704730913377 (- 52)),
       (Double 6091704730913377 (- 52), Double 6484717939359401 (- 52)),
       (Double 6484717939359401 (- 52), Double 6877731147805425 (- 52)),
       (Double 6877731147805425 (- 52), Double 7270744356251449 (- 52)),
       (Double 7270744356251449 (- 52), Double 7663757564697473 (- 52)),
       (Double 7663757564697473 (- 52), Double 8056770773143497 (- 52)),
       (Double 8056770773143497 (- 52), Double 8449783981589521 (- 52)),
       (Double 8449783981589521 (- 52), Double 8842797190035545 (- 52)),
       (Double 8842797190035545 (- 52), Double 4617905199240785 (- 51)),
       (Double 4617905199240785 (- 51), Double 4814411803463797 (- 51)),
       (Double 4814411803463797 (- 51), Double 5010918407686809 (- 51)),
       (Double 5010918407686809 (- 51), Double 5207425011909821 (- 51)),
       (Double 5207425011909821 (- 51), Double 5403931616132833 (- 51)),
       (Double 5403931616132833 (- 51), Double 5600438220355845 (- 51)),
       (Double 5600438220355845 (- 51), Double 5796944824578857 (- 51)),
       (Double 5796944824578857 (- 51), Double 5993451428801869 (- 51)),
       (Double 5993451428801869 (- 51), Double 6189958033024881 (- 51)),
       (Double 6189958033024881 (- 51), Double 6386464637247893 (- 51)),
       (Double 6386464637247893 (- 51), Double 6582971241470905 (- 51)),
       (Double 6582971241470905 (- 51), Double 6779477845693917 (- 51)),
       (Double 6779477845693917 (- 51), Double 6975984449916929 (- 51)),
       (Double 6975984449916929 (- 51), Double 7172491054139941 (- 51)),
       (Double 7172491054139941 (- 51), Double 7368997658362953 (- 51)),
       (Double 7368997658362953 (- 51), Double 7565504262585965 (- 51)),
       (Double 7565504262585965 (- 51), Double 7762010866808977 (- 51)),
       (Double 7762010866808977 (- 51), Double 7958517471031989 (- 51)),
       (Double 7958517471031989 (- 51), Double 8155024075255001 (- 51)),
       (Double 8155024075255001 (- 51), Double 8351530679478013 (- 51)),
       (Double 8351530679478013 (- 51), Double 8548037283701025 (- 51)),
       (Double 8548037283701025 (- 51), Double 8744543887924037 (- 51)),
       (Double 8744543887924037 (- 51), Double 8941050492147049 (- 51)),
       (Double 8941050492147049 (- 51), Double 4568778548185031 (- 50)),
       (Double 4568778548185031 (- 50), Double 4667031850296537 (- 50)),
       (Double 4667031850296537 (- 50), Double 4765285152408043 (- 50)),
       (Double 4765285152408043 (- 50), Double 4863538454519549 (- 50)),
       (Double 4863538454519549 (- 50), Double 4961791756631055 (- 50)),
       (Double 4961791756631055 (- 50), Double 5060045058742561 (- 50)),
       (Double 5060045058742561 (- 50), Double 5158298360854067 (- 50)),
       (Double 5158298360854067 (- 50), Double 5256551662965573 (- 50)),
       (Double 5256551662965573 (- 50), Double 5354804965077079 (- 50)),
       (Double 5354804965077079 (- 50), Double 5453058267188585 (- 50)),
       (Double 5453058267188585 (- 50), Double 5551311569300091 (- 50)),
       (Double 5551311569300091 (- 50), Double 5649564871411597 (- 50)),
       (Double 5649564871411597 (- 50), Double 5747818173523103 (- 50)),
       (Double 5747818173523103 (- 50), Double 5846071475634609 (- 50)),
       (Double 5846071475634609 (- 50), Double 5944324777746115 (- 50)),
       (Double 5944324777746115 (- 50), Double 6042578079857621 (- 50)),
       (Double 6042578079857621 (- 50), Double 6140831381969127 (- 50)),
       (Double 6140831381969127 (- 50), Double 6239084684080633 (- 50)),
       (Double 6239084684080633 (- 50), Double 6337337986192139 (- 50)),
       (Double 6337337986192139 (- 50), Double 6435591288303645 (- 50)),
       (Double 6435591288303645 (- 50), Double 6533844590415151 (- 50)),
       (Double 6533844590415151 (- 50), Double 6632097892526657 (- 50)),
       (Double 6632097892526657 (- 50), Double 6730351194638163 (- 50)),
       (Double 6730351194638163 (- 50), Double 6828604496749669 (- 50)),
       (Double 6828604496749669 (- 50), Double 6926857798861175 (- 50)),
       (Double 6926857798861175 (- 50), Double 7025111100972681 (- 50)),
       (Double 7025111100972681 (- 50), Double 7025111100972687 (- 50))]"
  by (simp add: ellipseRun_unfold ellipseStart_value ellipseStop_value ellipseEnd_value
      fl_def rne_def aligned_def dadd_def dless_def excess.simps del: ellipseRun.simps)

text \<open>
  A bounded run that ends is the run of the loop: \<open>ellipseSegments\<close> returns, and what it
  appends is the image of the angular segments under \<open>mk\<close>, so the angles do not depend
  on what is built from them.
\<close>

lemma ellipseRun_segments:
  "ellipseRun n alpha acc = Some segs
     \<Longrightarrow> ellipseSegments mk alpha (vec @ map (\<lambda>(al, da). mk (valof al) (valof da)) acc)
           = Some (vec @ map (\<lambda>(al, da). mk (valof al) (valof da)) segs)"
proof (induction n arbitrary: alpha acc)
  case 0
  then show ?case by (subst ellipseSegments.simps) (simp split: if_splits)
next
  case (Suc n)
  show ?case
  proof (cases "dless alpha ellipseStop")
    case True
    with Suc.prems have "ellipseRun n (ellipseEnd alpha) (acc @ [(alpha, ellipseEnd alpha)]) = Some segs"
      by simp
    from Suc.IH[OF this] True show ?thesis by (subst ellipseSegments.simps) simp
  next
    case False
    with Suc.prems show ?thesis by (subst ellipseSegments.simps) simp
  qed
qed

lemma createEllipseSegments_run:
  assumes "ellipseRun n ellipseStart [] = Some ring"
  shows "createEllipseSegments mk vec
           = Some (vec @ map (\<lambda>(al, da). mk al da) (map (\<lambda>(al, da). (valof al, valof da)) ring))"
proof -
  have "map (\<lambda>(al, da). mk al da) (map (\<lambda>(al, da). (valof al, valof da)) ring)
      = map (\<lambda>(al, da). mk (valof al) (valof da)) ring"
    by (induction ring) auto
  with ellipseRun_segments[OF assms, of mk vec] show ?thesis
    by (simp add: createEllipseSegments_def)
qed

lemma createEllipseSegments_returns: "\<exists>ring. createEllipseSegments mk vec = Some ring"
  using createEllipseSegments_run[OF ellipseRun_73] by blast

text \<open>
  Claim C8 fails on the code. Whatever is built from an angular segment (so for every
  centre, orientation and pair of semi-axes), \<open>createEllipseSegments\<close> returns and
  appends one element per angular segment of \<open>ellipseAngles\<close>, and these are 73, not 72:
  the last one starts where the 72nd ends and has the size \<open>3 / 2^49\<close>, about
  \<open>5.3e-15\<close>, a closing segment of no extent that the half-step offset and the clamp
  were meant to rule out. Rounding also makes segments exceed the step: ten of them are
  larger than \<open>dAlpha\<close>, the fourth one by \<open>1 / 2^56\<close>. In exact arithmetic
  \<open>- \<pi> / 72 + 72 * (\<pi> / 36) = 2 * \<pi> - \<pi> / 72\<close>, and the loop would stop after 72 segments.
\<close>

theorem createEllipseSegments_closing_sliver:
  "\<exists>segs. ellipseAngles = Some segs
      \<and> createEllipseSegments mk vec = Some (vec @ map (\<lambda>(al, da). mk al da) segs)
      \<and> length segs = 73
      \<and> fst (last segs) = snd (segs ! 71)
      \<and> snd (last segs) - fst (last segs) = 3 / 2 ^ 49
      \<and> snd (segs ! 3) - fst (segs ! 3) - valof dAlpha = 1 / 2 ^ 56
      \<and> length (filter (\<lambda>(al, da). da - al > valof dAlpha) segs) = 10"
proof -
  obtain ring where run: "ellipseRun 73 ellipseStart [] = Some ring"
    and len: "length ring = 73"
    and seam: "fst (last ring) = snd (ring ! 71)"
    and sliver: "valof (snd (last ring)) - valof (fst (last ring)) = 3 / 2 ^ 49"
    and above: "valof (snd (ring ! 3)) - valof (fst (ring ! 3)) - valof dAlpha = 1 / 2 ^ 56"
    and many: "length (filter (\<lambda>(al, da). valof da - valof al > valof dAlpha) ring) = 10"
    by (rule that[OF ellipseRun_73]) (simp_all add: valof_def dAlpha_value)
  let ?segs = "map (\<lambda>(al, da). (valof al, valof da)) ring"
  from len have ne: "ring \<noteq> []" by auto
  have "ellipseAngles = Some ?segs"
    using createEllipseSegments_run[OF run, of Pair "[]"] by (simp add: ellipseAngles_def)
  moreover have "createEllipseSegments mk vec = Some (vec @ map (\<lambda>(al, da). mk al da) ?segs)"
    by (rule createEllipseSegments_run[OF run])
  moreover have "length ?segs = 73" using len by simp
  moreover have "fst (last ?segs) = snd (?segs ! 71)"
    using seam len ne by (simp add: last_map case_prod_beta)
  moreover have "snd (last ?segs) - fst (last ?segs) = 3 / 2 ^ 49"
    using sliver ne by (simp add: last_map case_prod_beta)
  moreover have "snd (?segs ! 3) - fst (?segs ! 3) - valof dAlpha = 1 / 2 ^ 56"
    using above len by (simp add: case_prod_beta)
  moreover have "length (filter (\<lambda>(al, da). da - al > valof dAlpha) ?segs) = 10"
    using many unfolding case_prod_beta by (simp add: filter_map comp_def)
  ultimately show ?thesis by blast
qed

text \<open>
  What holds of the ring: it starts at the half-step offset \<open>-M_PI / 72\<close> and ends at
  the bound; every segment has a positive size, at most the step and half a unit in the
  last place of the largest angles (\<open>1 / 2^51\<close>); each segment starts where the one
  before ends; and the sizes sum to \<open>2 * M_PI\<close> up to \<open>7 / 2^57\<close>, about \<open>4.9e-17\<close>.
\<close>

lemma ellipse_ring_holds:
  "\<exists>segs. ellipseAngles = Some segs
      \<and> fst (hd segs) = valof ellipseStart
      \<and> snd (last segs) = valof ellipseStop
      \<and> list_all (\<lambda>(al, da). al < da \<and> da - al \<le> valof dAlpha + 1 / 2 ^ 51) segs
      \<and> map snd (butlast segs) = map fst (tl segs)
      \<and> (\<Sum>(al, da)\<leftarrow>segs. da - al) = 2 * valof M_PI_double + 7 / 2 ^ 57"
proof -
  obtain ring where run: "ellipseRun 73 ellipseStart [] = Some ring"
    and ne: "ring \<noteq> []"
    and first: "valof (fst (hd ring)) = valof ellipseStart"
    and final: "valof (snd (last ring)) = valof ellipseStop"
    and sizes: "list_all (\<lambda>(al, da). valof al < valof da \<and> valof da - valof al \<le> valof dAlpha + 1 / 2 ^ 51) ring"
    and chain: "map snd (butlast ring) = map fst (tl ring)"
    and total: "(\<Sum>(al, da)\<leftarrow>ring. valof da - valof al) = 2 * valof M_PI_double + 7 / 2 ^ 57"
    by (rule that[OF ellipseRun_73])
      (simp_all add: valof_def dAlpha_value ellipseStart_value ellipseStop_value M_PI_double_def)
  let ?f = "\<lambda>(al, da). (valof al, valof da)"
  let ?segs = "map ?f ring"
  have "ellipseAngles = Some ?segs"
    using createEllipseSegments_run[OF run, of Pair "[]"] by (simp add: ellipseAngles_def)
  moreover have "fst (hd ?segs) = valof ellipseStart"
    using first ne by (simp add: hd_map case_prod_beta)
  moreover have "snd (last ?segs) = valof ellipseStop"
    using final ne by (simp add: last_map case_prod_beta)
  moreover have "list_all (\<lambda>(al, da). al < da \<and> da - al \<le> valof dAlpha + 1 / 2 ^ 51) ?segs"
    using sizes by (simp add: list_all_iff case_prod_beta)
  moreover have "map snd (butlast ?segs) = map fst (tl ?segs)"
  proof -
    have "map snd (butlast ?segs) = map valof (map snd (butlast ring))"
      by (simp add: map_butlast case_prod_beta comp_def)
    also have "\<dots> = map valof (map fst (tl ring))" by (simp only: chain)
    also have "\<dots> = map fst (tl ?segs)" by (simp add: map_tl case_prod_beta comp_def)
    finally show ?thesis .
  qed
  moreover have "(\<Sum>(al, da)\<leftarrow>?segs. da - al) = 2 * valof M_PI_double + 7 / 2 ^ 57"
  proof -
    have "(\<Sum>(al, da)\<leftarrow>?segs. da - al) = (\<Sum>(al, da)\<leftarrow>ring. valof da - valof al)"
      by (induction ring) (auto simp: case_prod_beta)
    with total show ?thesis by simp
  qed
  ultimately show ?thesis by blast
qed


subsection \<open>Road segments\<close>

text \<open>
  Claim C7 fails on the code. The loop over a straight span starts at the span's start
  \<^verbatim>\<open>gm->GetS()\<close> but runs while \<^verbatim>\<open>dist < length\<close>, the span's length, not its end. On
  the straight road cut in the spans \<open>[0, 30]\<close> and \<open>[30, 50]\<close>, a step of 10 yields the
  three chunks of the first span and none for the second one (start 30, length 20); a
  span that starts at 10 with length 30 is covered up to 30 only, not up to 40.
\<close>

theorem createRoadSegments_misses_span:
  "map_option (map (\<lambda>tr. (sI tr, sF tr))) (createRoadSegments (\<lambda>gm ms st vec. vec) twoSpanNet 10 [])
     = Some [(0, 10), (10, 20), (20, 30)]
   \<and> map_option (map (\<lambda>tr. (sI tr, sF tr))) (lineSegments (lineSpan 30 20) 10 (GetGeometryS (lineSpan 30 20)) [])
     = Some []
   \<and> map_option (map (\<lambda>tr. (sI tr, sF tr))) (lineSegments (lineSpan 10 30) 10 (GetGeometryS (lineSpan 10 30)) [])
     = Some [(10, 20), (20, 30)]"
  by (simp add: segment_defs)


text \<open>
  What the loop over a straight span does in general, for a positive step: it ends, and
  for a span whose start lies below its length it emits chunks of positive length at most
  the step, each starting where the one before ends, from the start of the span up to
  the span's length (not to its end, start plus length); for a span whose start is at or
  beyond its length it emits nothing.
\<close>

lemma lineTriangle_range: "sI (lineTriangle gm distS ds) = distS \<and> sF (lineTriangle gm distS ds) = ds"
  by (simp add: lineTriangle_def split: prod.splits)

lemma lineSegments_chunks:
  assumes ms: "0 < minSz"
  shows "nat \<lceil>(GetLength gm - distS) / minSz\<rceil> \<le> n \<Longrightarrow>
    \<exists>segs. lineSegments gm minSz distS vec = Some (vec @ segs)
      \<and> (distS < GetLength gm \<longrightarrow> segs \<noteq> [] \<and> sI (hd segs) = distS \<and> sF (last segs) = GetLength gm)
      \<and> (\<not> distS < GetLength gm \<longrightarrow> segs = [])
      \<and> map sF (butlast segs) = map sI (tl segs)
      \<and> (\<forall>tr\<in>set segs. sI tr < sF tr \<and> sF tr - sI tr \<le> minSz)"
proof (induction n arbitrary: distS vec)
  case 0
  then have "\<lceil>(GetLength gm - distS) / minSz\<rceil> \<le> 0" by simp
  then have "(GetLength gm - distS) / minSz \<le> 0" by (simp add: ceiling_le_iff)
  with ms have "\<not> distS < GetLength gm" by (simp add: divide_le_0_iff)
  then have "lineSegments gm minSz distS vec = Some (vec @ [])"
    by (subst lineSegments.simps) simp
  with \<open>\<not> distS < GetLength gm\<close> show ?case by (intro exI[of _ "[]"]) simp
next
  case (Suc n)
  show ?case
  proof (cases "distS < GetLength gm")
    case False
    then have "lineSegments gm minSz distS vec = Some (vec @ [])"
      by (subst lineSegments.simps) simp
    with False show ?thesis by (intro exI[of _ "[]"]) simp
  next
    case True
    let ?ds = "lineEnd gm minSz distS"
    let ?tr = "lineTriangle gm distS ?ds"
    have ds: "distS < ?ds" "?ds - distS \<le> minSz" "?ds \<le> GetLength gm"
      using True ms by (auto simp: lineEnd_def)
    have "nat \<lceil>(GetLength gm - ?ds) / minSz\<rceil> \<le> n"
    proof (cases "distS + minSz > GetLength gm")
      case c: True
      then have "?ds = GetLength gm" by (simp add: lineEnd_def)
      then show ?thesis by simp
    next
      case c: False
      then have e: "?ds = distS + minSz" by (simp add: lineEnd_def)
      have "(GetLength gm - (distS + minSz)) / minSz = (GetLength gm - distS) / minSz - 1"
        using ms by (simp add: field_simps)
      then have "\<lceil>(GetLength gm - (distS + minSz)) / minSz\<rceil> = \<lceil>(GetLength gm - distS) / minSz\<rceil> - 1"
        by simp
      moreover from Suc.prems have "\<lceil>(GetLength gm - distS) / minSz\<rceil> \<le> int (Suc n)"
        by (simp only: nat_le_iff)
      ultimately have "nat \<lceil>(GetLength gm - (distS + minSz)) / minSz\<rceil> \<le> n" by linarith
      with e show ?thesis by (simp only:)
    qed
    from Suc.IH[OF this, of "vec @ [?tr]"] obtain segs where
      r: "lineSegments gm minSz ?ds (vec @ [?tr]) = Some ((vec @ [?tr]) @ segs)"
      and a: "?ds < GetLength gm \<longrightarrow> segs \<noteq> [] \<and> sI (hd segs) = ?ds \<and> sF (last segs) = GetLength gm"
      and b: "\<not> ?ds < GetLength gm \<longrightarrow> segs = []"
      and c: "map sF (butlast segs) = map sI (tl segs)"
      and d: "\<forall>tr\<in>set segs. sI tr < sF tr \<and> sF tr - sI tr \<le> minSz"
      by blast
    have eq: "lineSegments gm minSz distS vec = Some (vec @ ?tr # segs)"
      using True r by (subst lineSegments.simps) simp
    have tr: "sI ?tr = distS" "sF ?tr = ?ds" using lineTriangle_range by simp_all
    have last: "sF (last (?tr # segs)) = GetLength gm"
    proof (cases "?ds < GetLength gm")
      case True
      with a show ?thesis by simp
    next
      case False
      with b ds(3) tr show ?thesis by simp
    qed
    have cont: "map sF (butlast (?tr # segs)) = map sI (tl (?tr # segs))"
    proof (cases segs)
      case Nil
      then show ?thesis by simp
    next
      case (Cons x xs)
      with b have "?ds < GetLength gm" by auto
      with a Cons have "sI x = ?ds" by simp
      with Cons c tr show ?thesis by simp
    qed
    from eq tr ds d last cont True show ?thesis
      by (intro exI[of _ "?tr # segs"]) simp
  qed
qed

theorem lineSegments_cover:
  assumes "0 < minSz" and "GetGeometryS gm < GetLength gm"
  shows "\<exists>segs. lineSegments gm minSz (GetGeometryS gm) vec = Some (vec @ segs)
      \<and> segs \<noteq> [] \<and> sI (hd segs) = GetGeometryS gm \<and> sF (last segs) = GetLength gm
      \<and> map sF (butlast segs) = map sI (tl segs)
      \<and> (\<forall>tr\<in>set segs. sI tr < sF tr \<and> sF tr - sI tr \<le> minSz)"
  using lineSegments_chunks[OF assms(1) order_refl, of gm "GetGeometryS gm" vec] assms(2) by blast

text \<open>The span that starts at 10 with length 30: chunks from 10 up to 30.\<close>

theorem lineSegments_cover_witness:
  "(0::real) < 10 \<and> GetGeometryS (lineSpan 10 30) < GetLength (lineSpan 10 30)
   \<and> (\<exists>segs. lineSegments (lineSpan 10 30) 10 (GetGeometryS (lineSpan 10 30)) [] = Some ([] @ segs)
        \<and> sI (hd segs) = 10 \<and> sF (last segs) = 30)"
proof -
  have h: "GetGeometryS (lineSpan 10 30) < GetLength (lineSpan 10 30)" by (simp add: lineSpan_def)
  from lineSegments_cover[of 10, OF _ h, of "[]"] h show ?thesis
    by (auto simp: lineSpan_def)
qed

lemma lineSegments_skipped:
  "GetLength gm \<le> GetGeometryS gm \<Longrightarrow> lineSegments gm minSz (GetGeometryS gm) vec = Some vec"
  by (subst lineSegments.simps) simp


subsection \<open>Start and the throttle of Step\<close>

text \<open>
  With a positive step the segmentation of every road ends, so \<open>Start\<close> returns: it sets
  the last evaluation time to -1 ("never"), the mid radii to the averages, a positive
  \<open>minSize\<close> and the road tree over the segments for that step.
\<close>

lemma geometrySegments_total:
  "0 < minSz \<Longrightarrow> \<exists>vec'. geometrySegments curve2triangles minSz gm vec = Some vec'"
  using lineSegments_chunks[OF _ order_refl, of minSz gm "GetGeometryS gm" vec]
  by (cases "GetType gm") (auto simp: geometrySegments_def)

lemma roadSegments_total:
  "0 < minSz \<Longrightarrow> \<exists>vec'. roadSegments curve2triangles minSz gms vec = Some vec'"
proof (induction gms arbitrary: vec)
  case Nil
  then show ?case by simp
next
  case (Cons gm gms)
  from geometrySegments_total[OF Cons.prems, of curve2triangles gm vec] obtain v1 where
    "geometrySegments curve2triangles minSz gm vec = Some v1" by blast
  with Cons.IH[OF Cons.prems, of v1] show ?case by simp
qed

lemma roadsSegments_total:
  "0 < minSz \<Longrightarrow> \<exists>vec'. roadsSegments curve2triangles minSz rds vec = Some vec'"
proof (induction rds arbitrary: vec)
  case Nil
  then show ?case by simp
next
  case (Cons rd rds)
  from roadSegments_total[OF Cons.prems, of curve2triangles "GetGeometries rd" vec] obtain v1 where
    "roadSegments curve2triangles minSz (GetGeometries rd) vec = Some v1" by blast
  with Cons.IH[OF Cons.prems, of v1] show ?case by simp
qed

lemma Start_returns:
  "\<exists>s. Start pe c2t odr a = Some s \<and> lastTime s = - 1
      \<and> midSMjA s = (semiMajorAxis a + innerRadius a) / 2
      \<and> midSMnA s = (semiMinorAxis a + innerRadius a) / 2
      \<and> 0 < minSize s
      \<and> createRoadSegments c2t odr (minSize s) [] = Some (rTree s)
      \<and> entities s = entities a \<and> spawnedV s = spawnedV a"
proof -
  let ?mj = "(semiMajorAxis a + innerRadius a) / 2" and ?mn = "(semiMinorAxis a + innerRadius a) / 2"
  let ?d = "sqrt ((fst (pe (M_PI / 36) 0 0 ?mj ?mn 0) - fst (pe 0 0 0 ?mj ?mn 0))\<^sup>2
            + (snd (pe (M_PI / 36) 0 0 ?mj ?mn 0) - snd (pe 0 0 0 ?mj ?mn 0))\<^sup>2)"
  let ?ms = "real_of_int \<lceil>?d * 100\<rceil> / 100"
  let ?sz = "if ?ms = 0 then 1 else ?ms"
  have "0 \<le> ?d * 100" by simp
  then have "0 \<le> \<lceil>?d * 100\<rceil>" by linarith
  then have "0 \<le> ?ms" by simp
  then have sz: "0 < ?sz" by (auto simp: less_le)
  from roadsSegments_total[OF sz, of c2t "GetRoads odr" "[]"] obtain vec where
    vec: "createRoadSegments c2t odr ?sz [] = Some vec" by (auto simp: createRoadSegments_def)
  have "Start pe c2t odr a
      = Some (a\<lparr>midSMjA := ?mj, midSMnA := ?mn, lastTime := - 1, minSize := ?sz, rTree := vec\<rparr>)"
    using vec by (simp add: Start_def Let_def)
  with sz vec show ?thesis by simp
qed

text \<open>
  Claim C5, as amended. A call \<open>Step dt simTime\<close> is a no-op that returns the action and
  the engine unchanged unless the last evaluation time is negative (as \<open>Start\<close> leaves
  it) or \<open>simTime\<close> differs from it by more than \<open>TIME_INTERVAL = 0.1\<close>; in that case, if
  the call returns, it has run \<open>despawn\<close>, then \<open>spawn\<close> on the solution points of the
  resampled ellipse with the despawn count as quota, and has set the last evaluation time
  to \<open>simTime\<close>.
\<close>

theorem Step_throttle:
  "(\<not> (lastTime a < 0 \<or> \<bar>simTime - lastTime a\<bar> > 1 / 10)
      \<longrightarrow> Step odr ell mk findPoints dt simTime a g = Some (a, g))
   \<and> ((lastTime a < 0 \<or> \<bar>simTime - lastTime a\<bar> > 1 / 10)
        \<and> Step odr ell mk findPoints dt simTime a g = Some (a', g')
      \<longrightarrow> lastTime a' = simTime
          \<and> (\<exists>vec a1 n a2.
                createEllipseSegments (mk (midSMjA a) (midSMnA a) (obj_pos (centralObject a))) [] = Some vec
                \<and> despawn ell simTime a = Some (a1, n)
                \<and> spawn odr
                     (findPoints (rTree a) vec (midSMjA a) (midSMnA a) (obj_pos (centralObject a)))
                     n simTime a1 g = Some (a2, g')
                \<and> a' = a2\<lparr>lastTime := simTime\<rparr>))
   \<and> (\<exists>s. Start pe c2t odr0 b = Some s \<and> lastTime s < 0)"
proof -
  from Start_returns[of pe c2t odr0 b] obtain s where "Start pe c2t odr0 b = Some s" "lastTime s = - 1"
    by blast
  then have "\<exists>s. Start pe c2t odr0 b = Some s \<and> lastTime s < 0" by auto
  then show ?thesis
    by (auto simp: Step_def TIME_INTERVAL_def split: option.splits)
qed

text \<open>
  Claim C5 as stated fails in both directions. With the last evaluation at 0, the call at
  \<open>simTime = 0.1\<close> (an advance of at least 0.1) is a no-op: the test is
  \<^verbatim>\<open>abs(simTime - lastTime) > TIME_INTERVAL\<close>. With the last evaluation at 1, the call at
  \<open>simTime = 0.5\<close>, which is neither the first call nor an advance, runs the pipeline and
  sets the last evaluation time to 0.5: the test takes the absolute value.
\<close>

theorem Step_throttle_counterexample:
  "1 / 10 - lastTime ((ringScene [] [])\<lparr>lastTime := 0\<rparr>) \<ge> 1 / 10
   \<and> Step straightNet ellipse chordTriangle (\<lambda>rt et mj mn p. []) (1 / 100) (1 / 10) ((ringScene [] [])\<lparr>lastTime := 0\<rparr>) []
       = Some ((ringScene [] [])\<lparr>lastTime := 0\<rparr>, [])
   \<and> lastTime ((ringScene [] [])\<lparr>lastTime := 0\<rparr>) \<noteq> 1 / 10
   \<and> \<not> 1 / 2 - lastTime ((ringScene [] [])\<lparr>lastTime := 1\<rparr>) \<ge> 1 / 10
   \<and> lastTime ((ringScene [] [])\<lparr>lastTime := 1\<rparr>) \<noteq> - 1
   \<and> Step straightNet ellipse chordTriangle (\<lambda>rt et mj mn p. []) (1 / 100) (1 / 2) ((ringScene [] [])\<lparr>lastTime := 1\<rparr>) []
       = Some ((ringScene [] [])\<lparr>lastTime := 1 / 2\<rparr>, [])"
proof -
  obtain vec where
    "createEllipseSegments
       (chordTriangle (midSMjA ((ringScene [] [])\<lparr>lastTime := 1\<rparr>))
          (midSMnA ((ringScene [] [])\<lparr>lastTime := 1\<rparr>))
          (obj_pos (centralObject ((ringScene [] [])\<lparr>lastTime := 1\<rparr>)))) [] = Some vec"
    using createEllipseSegments_returns by blast
  then show ?thesis
    by (simp add: Step_def TIME_INTERVAL_def spawn_defs scene_defs)
qed


text \<open>
  The first evaluation on the straight road with two solution points 80 apart and the
  target 2: no despawn, two spawns, last evaluation time 0.
\<close>

lemma Step_first_evaluation:
  "Step straightNet ellipse chordTriangle (\<lambda>rt et mj mn p. [solAt 10, solAt 90]) (1 / 100) 0
      (ringScene [] []) [2]
     = Some ((ringScene [carAt 0 ''0'' 10 0, carAt 1 ''1'' 90 0] [recordOf 0 0, recordOf 1 0])
               \<lparr>lastTime := 0\<rparr>, [])"
proof -
  obtain vec where
    "createEllipseSegments
       (chordTriangle (midSMjA (ringScene [] [])) (midSMnA (ringScene [] []))
          (obj_pos (centralObject (ringScene [] [])))) [] = Some vec"
    using createEllipseSegments_returns by blast
  then show ?thesis
    by (simp add: Step_def TIME_INTERVAL_def spawn_defs road_defs scene_defs)
qed

text \<open>
  The theorem at the two calls: the no-op 0.1 after the last evaluation, and the first
  evaluation.
\<close>

theorem Step_throttle_witness:
  "\<not> (lastTime ((ringScene [] [])\<lparr>lastTime := 0\<rparr>) < 0
        \<or> \<bar>1 / 10 - lastTime ((ringScene [] [])\<lparr>lastTime := 0\<rparr>)\<bar> > 1 / 10)
   \<and> Step straightNet ellipse chordTriangle (\<lambda>rt et mj mn p. []) (1 / 100) (1 / 10)
        ((ringScene [] [])\<lparr>lastTime := 0\<rparr>) []
       = Some ((ringScene [] [])\<lparr>lastTime := 0\<rparr>, [])
   \<and> lastTime (ringScene [] []) < 0
   \<and> Step straightNet ellipse chordTriangle (\<lambda>rt et mj mn p. [solAt 10, solAt 90]) (1 / 100) 0
        (ringScene [] []) [2]
       = Some ((ringScene [carAt 0 ''0'' 10 0, carAt 1 ''1'' 90 0] [recordOf 0 0, recordOf 1 0])
               \<lparr>lastTime := 0\<rparr>, [])
   \<and> lastTime ((ringScene [carAt 0 ''0'' 10 0, carAt 1 ''1'' 90 0] [recordOf 0 0, recordOf 1 0])
               \<lparr>lastTime := 0\<rparr>) = 0"
proof -
  let ?a = "(ringScene [] [])\<lparr>lastTime := 0\<rparr>"
  have nd: "\<not> (lastTime ?a < 0 \<or> \<bar>1 / 10 - lastTime ?a\<bar> > 1 / 10)" by simp
  from Step_throttle[where a = ?a and simTime = "1 / 10" and odr = straightNet and ell = ellipse
      and mk = chordTriangle and findPoints = "\<lambda>rt et mj mn p. []" and dt = "1 / 100" and g = "[]"] nd
  have s1: "Step straightNet ellipse chordTriangle (\<lambda>rt et mj mn p. []) (1 / 100) (1 / 10) ?a []
      = Some (?a, [])" by blast
  let ?b = "ringScene [] []"
  let ?b' = "(ringScene [carAt 0 ''0'' 10 0, carAt 1 ''1'' 90 0] [recordOf 0 0, recordOf 1 0])\<lparr>lastTime := 0\<rparr>"
  have d: "lastTime ?b < 0" by (simp add: ringScene_def)
  from Step_throttle[where a = ?b and simTime = 0 and odr = straightNet and ell = ellipse
      and mk = chordTriangle and findPoints = "\<lambda>rt et mj mn p. [solAt 10, solAt 90]"
      and dt = "1 / 100" and g = "[2]" and a' = ?b' and g' = "[]"] d Step_first_evaluation
  have s2: "lastTime ?b' = 0" by blast
  from nd s1 d s2 Step_first_evaluation show ?thesis by blast
qed


subsection \<open>Fleet size when the target is positive\<close>

text \<open>
  The selections of \<open>sampleRoads\<close> carry at most \<open>nCarsToSpawn\<close> lanes in all when the
  target is positive, and \<open>spawn\<close> adds at most one record per lane.
\<close>

lemma sample_length: "length (fst (sample xs n g)) \<le> n"
proof (induction xs arbitrary: n g)
  case Nil
  then show ?case by simp
next
  case (Cons x xs)
  show ?case
  proof (cases "n = 0")
    case True
    then show ?thesis by simp
  next
    case False
    obtain r g' where d: "draw g = (r, g')" by (cases "draw g")
    show ?thesis
    proof (cases "r mod Suc (length xs) < n")
      case True
      obtain ys g'' where s: "sample xs (n - 1) g' = (ys, g'')" by (cases "sample xs (n - 1) g'")
      with Cons.IH[of "n - 1" g'] have "length ys \<le> n - 1" by simp
      with False True d s show ?thesis by simp
    next
      case no: False
      with False d Cons.IH[of n g'] show ?thesis by simp
    qed
  qed
qed

lemma sampleSelected_lanes:
  "sampleSelected odr pts = Some info \<Longrightarrow> sum_list (map nLanes info) \<le> int (length pts)"
proof (induction pts arbitrary: info)
  case Nil
  then show ?case by simp
next
  case (Cons pt pts)
  then show ?case by (fastforce split: option.splits if_splits)
qed

lemma sampleAll_lanes:
  "sampleAll odr lanesLeft pts g = Some (info, left, g')
     \<Longrightarrow> sum_list (map nLanes info) + left = lanesLeft + int (length pts)"
proof (induction pts arbitrary: lanesLeft g info)
  case Nil
  then show ?case by simp
next
  case (Cons pt pts)
  from Cons.prems obtain rd where rd: "GetRoadById odr (GetTrackId (pointPos odr pt)) = Some rd"
    by (auto split: option.splits)
  let ?nd = "int (GetNumberOfDrivingLanes rd (GetS (pointPos odr pt)))"
  show ?case
  proof (cases "?nd = 0")
    case True
    with Cons.prems rd have "sampleAll odr (lanesLeft + 1) pts g = Some (info, left, g')" by simp
    from Cons.IH[OF this] show ?thesis by simp
  next
    case False
    obtain lanesN g1 where dl: "drawLanesN lanesLeft ?nd g = (lanesN, g1)"
      by (cases "drawLanesN lanesLeft ?nd g")
    from Cons.prems rd False dl obtain info1 where
      r: "sampleAll odr (lanesLeft - lanesN) pts g1 = Some (info1, left, g')"
      and i: "info = \<lparr>pos = pointPos odr pt, road = rd, nLanes = 1 + lanesN\<rparr> # info1"
      by (auto split: option.splits)
    from Cons.IH[OF r] i show ?thesis by simp
  qed
qed

lemma sampleRoads_lanes:
  assumes "minN \<le> maxN" and "0 < nCarsToSpawn minN maxN g"
    and "sampleRoads odr minN maxN sols [] g = Some (info, g')"
  shows "sum_list (map nLanes info) \<le> nCarsToSpawn minN maxN g"
proof (cases "nCarsToSpawn minN maxN g \<le> int (length sols)")
  case True
  let ?n = "nCarsToSpawn minN maxN g"
  obtain shuffled g1 where sh: "random_shuffle sols (snd (uniform_int_distribution minN maxN g)) = (shuffled, g1)"
    by (cases "random_shuffle sols (snd (uniform_int_distribution minN maxN g))")
  obtain selected g2 where se: "sample shuffled (nat ?n) g1 = (selected, g2)"
    by (cases "sample shuffled (nat ?n) g1")
  from assms True sh se have "sampleSelected odr selected = Some info"
    by (auto simp: sampleRoads_def split: option.splits)
  then have "sum_list (map nLanes info) \<le> int (length selected)" by (rule sampleSelected_lanes)
  moreover from sample_length[of shuffled "nat ?n" g1] se have "length selected \<le> nat ?n" by simp
  ultimately show ?thesis using assms(2) by linarith
next
  case False
  let ?L = "nCarsToSpawn minN maxN g - int (length sols)"
  from assms False obtain left where
    all: "sampleAll odr ?L sols (snd (uniform_int_distribution minN maxN g)) = Some (info, left, g')"
    by (auto simp: sampleRoads_def split: option.splits)
  from False have "0 < ?L" by simp
  then have "0 < left" using all by (rule sampleAll_pool_positive)
  with sampleAll_lanes[OF all] show ?thesis by simp
qed

lemma spawnLane_count:
  "spawnLane odr t sel laneIdx a = Some a'
     \<Longrightarrow> length (spawnedV a') \<le> Suc (length (spawnedV a)) \<and> numberOfVehicles a' = numberOfVehicles a"
  by (auto simp: spawnLane_def addObject_def Let_def split: option.splits if_splits)

lemma spawnLanes_count:
  "spawnLanes odr t sel lanes a = Some a'
     \<Longrightarrow> length (spawnedV a') \<le> length (spawnedV a) + length lanes
         \<and> numberOfVehicles a' = numberOfVehicles a"
proof (induction lanes arbitrary: a)
  case Nil
  then show ?case by simp
next
  case (Cons laneIdx rest)
  from Cons.prems obtain a1 where s1: "spawnLane odr t sel laneIdx a = Some a1"
    and s2: "spawnLanes odr t sel rest a1 = Some a'"
    by (auto split: option.splits)
  from spawnLane_count[OF s1] Cons.IH[OF s2] show ?case by simp
qed

lemma spawnAll_count:
  "spawnAll odr t info a g = Some (a', g')
     \<Longrightarrow> int (length (spawnedV a')) \<le> int (length (spawnedV a)) + sum_list (map nLanes info)
         \<and> numberOfVehicles a' = numberOfVehicles a"
proof (induction info arbitrary: a g)
  case Nil
  then show ?case by simp
next
  case (Cons sel rest)
  let ?n = "GetNumberOfDrivingLanes (road sel) (GetS (pos sel))"
  from Cons.prems have nl: "0 \<le> nLanes sel" by (auto split: if_splits)
  obtain lanes g1 where sa: "sample (map int [0..<?n]) (nat (nLanes sel)) g = (lanes, g1)"
    by (cases "sample (map int [0..<?n]) (nat (nLanes sel)) g")
  from Cons.prems sa obtain a1 where
    s1: "spawnLanes odr t sel lanes a = Some a1" and s2: "spawnAll odr t rest a1 g1 = Some (a', g')"
    by (auto split: option.splits if_splits)
  from sample_length[of "map int [0..<?n]" "nat (nLanes sel)" g] sa nl
  have "int (length lanes) \<le> nLanes sel" by simp
  with spawnLanes_count[OF s1] Cons.IH[OF s2] show ?case by simp
qed

text \<open>
  What holds of the fleet size: when the target drawn is positive (as it is for every
  positive quota), \<open>spawn\<close> keeps the number of active records within
  \<open>numberOfVehicles\<close>. The overshoot shown above for claim C10 needs the target 0.
\<close>

theorem spawn_within_fleet:
  assumes "int (length (spawnedV a)) \<le> numberOfVehicles a"
    and "0 < nCarsToSpawn replace (numberOfVehicles a - int (length (spawnedV a))) g"
    and "spawn odr sols replace t a g = Some (a', g')"
  shows "int (length (spawnedV a')) \<le> numberOfVehicles a'"
proof -
  let ?maxCars = "numberOfVehicles a - int (length (spawnedV a))"
  show ?thesis
  proof (cases "?maxCars \<le> 0 \<or> ?maxCars < replace")
    case True
    then have "spawn odr sols replace t a g = Some (a, g)"
      by (auto simp: spawn_def sampleRoads_skip)
    with assms(1,3) show ?thesis by simp
  next
    case False
    with assms(3) obtain info g1 where
      sr: "sampleRoads odr replace ?maxCars sols [] g = Some (info, g1)"
      and sa: "spawnAll odr t info a g1 = Some (a', g')"
      by (auto simp: spawn_def split: option.splits)
    from False have le: "replace \<le> ?maxCars" by simp
    from sampleRoads_lanes[OF le assms(2) sr] uniform_int_distribution_range[OF le, of g]
    have "sum_list (map nLanes info) \<le> ?maxCars" by (simp add: nCarsToSpawn_def)
    with spawnAll_count[OF sa] show ?thesis by simp
  qed
qed

text \<open>The bound at the run of \<open>spawn\<close> with the target 2 and a fleet of 3.\<close>

theorem spawn_within_fleet_witness:
  "int (length (spawnedV (ringScene [] []))) \<le> numberOfVehicles (ringScene [] [])
   \<and> 0 < nCarsToSpawn 0 (numberOfVehicles (ringScene [] []) - int (length (spawnedV (ringScene [] [])))) [2]
   \<and> spawn straightNet [solAt 10, solAt 90] 0 0 (ringScene [] []) [2]
       = Some (ringScene [carAt 0 ''0'' 10 0, carAt 1 ''1'' 90 0] [recordOf 0 0, recordOf 1 0], [])
   \<and> int (length (spawnedV (ringScene [carAt 0 ''0'' 10 0, carAt 1 ''1'' 90 0] [recordOf 0 0, recordOf 1 0])))
       \<le> numberOfVehicles (ringScene [carAt 0 ''0'' 10 0, carAt 1 ''1'' 90 0] [recordOf 0 0, recordOf 1 0])"
proof -
  have h1: "int (length (spawnedV (ringScene [] []))) \<le> numberOfVehicles (ringScene [] [])"
    by (simp add: ringScene_def)
  have h2: "0 < nCarsToSpawn 0 (numberOfVehicles (ringScene [] []) - int (length (spawnedV (ringScene [] [])))) [2]"
    by (simp add: ringScene_def nCarsToSpawn_def uniform_int_distribution_def)
  from spawn_within_fleet[OF h1 h2 spawn_far_pair] h1 h2 spawn_far_pair show ?thesis by blast
qed


subsection \<open>Further properties of despawn\<close>

text \<open>
  For the rotated-ellipse membership and the mid radii of \<open>Start\<close>, with an inner radius
  that is positive and at most both outer semi-axes, a vehicle inside the mid ellipse is
  inside the outer one: the first test of the loop cannot remove it.
\<close>

lemma square_div_mono:
  fixes u :: real
  assumes "0 < a'" and "a' \<le> A"
  shows "(u / A)\<^sup>2 \<le> (u / a')\<^sup>2"
proof -
  from assms have le: "a'\<^sup>2 \<le> A\<^sup>2" by (simp add: power_mono)
  from assms have p: "0 < a'\<^sup>2" "0 < A\<^sup>2" by simp_all
  then have "0 < A\<^sup>2 * a'\<^sup>2" by (intro mult_pos_pos)
  with le have "u\<^sup>2 / A\<^sup>2 \<le> u\<^sup>2 / a'\<^sup>2"
    by (intro divide_left_mono) simp_all
  then show ?thesis by (simp add: power_divide)
qed

lemma ellipse_mono:
  assumes "0 < a'" and "a' \<le> A" and "0 < b'" and "b' \<le> B"
  shows "ellipse h k ang A B x y \<le> ellipse h k ang a' b' x y"
  unfolding ellipse_def
  using square_div_mono[OF assms(1,2)] square_div_mono[OF assms(3,4)]
  by (simp add: add_mono)

lemma inside_mid_inside_outer:
  assumes "0 < innerRadius a" and "innerRadius a \<le> semiMajorAxis a" and "innerRadius a \<le> semiMinorAxis a"
    and "Start pe c2t odr a = Some s" and "despawn_e1 ellipse s v < 0"
  shows "despawn_e0 ellipse s v < 0"
proof -
  from assms(4) have m: "midSMjA s = (semiMajorAxis a + innerRadius a) / 2"
      "midSMnA s = (semiMinorAxis a + innerRadius a) / 2"
    and o: "semiMajorAxis s = semiMajorAxis a" "semiMinorAxis s = semiMinorAxis a"
    by (auto simp: Start_def Let_def split: option.splits)
  from assms(1,2,3) m o have "0 < midSMjA s" "midSMjA s \<le> semiMajorAxis s"
    "0 < midSMnA s" "midSMnA s \<le> semiMinorAxis s" by simp_all
  from ellipse_mono[OF this] have "despawn_e0 ellipse s v \<le> despawn_e1 ellipse s v"
    by (simp add: despawn_e0_def despawn_e1_def)
  with assms(5) show ?thesis by simp
qed

text \<open>
  \<open>despawn\<close> returns (no vehicle it looks up is NULL) when the objects of the repository
  have distinct ids and distinct names, every record's vehicle is in the repository and
  the records have distinct vehicle ids.
\<close>

lemma find_filter_keep: "find P xs = Some w \<Longrightarrow> Q w \<Longrightarrow> find P (filter Q xs) = Some w"
  by (induction xs) (auto split: if_splits)

lemma despawnLoop_total:
  "distinct (map obj_id ents) \<Longrightarrow> distinct (map obj_name ents) \<Longrightarrow> recordsLive ents l
     \<Longrightarrow> distinct (map vehicleID l) \<Longrightarrow> \<exists>res. despawnLoop ell a l ents = Some res"
proof (induction l arbitrary: ents)
  case Nil
  then show ?case by simp
next
  case (Cons info rest)
  from Cons.prems(3) obtain v where v: "GetObjectById ents (vehicleID info) = Some v"
    by (auto simp: recordsLive_def)
  then have vm: "v \<in> set ents" "obj_id v = vehicleID info"
    using GetObjectById_mem by blast+
  obtain info' del where vd: "despawnVerdict (despawn_e0 ell a v) (despawn_e1 ell a v) info = (info', del)"
    by (cases "despawnVerdict (despawn_e0 ell a v) (despawn_e1 ell a v) info")
  from Cons.prems(3) have live: "recordsLive ents rest" by (simp add: recordsLive_def)
  from Cons.prems(4) have dr: "distinct (map vehicleID rest)" by simp
  show ?case
  proof (cases del)
    case False
    from Cons.IH[OF Cons.prems(1,2) live dr] obtain res where "despawnLoop ell a rest ents = Some res"
      by blast
    with v vd False show ?thesis by (cases res) auto
  next
    case True
    let ?ents = "removeObject ents (obj_name v)"
    have d1: "distinct (map obj_id ?ents)" using Cons.prems(1) by (rule distinct_removeObject)
    have d2: "distinct (map obj_name ?ents)"
      unfolding removeObject_def using Cons.prems(2) by (rule distinct_map_filter)
    have "recordsLive ?ents rest"
      unfolding recordsLive_def
    proof
      fix r assume r: "r \<in> set rest"
      with live obtain w where w: "GetObjectById ents (vehicleID r) = Some w"
        by (auto simp: recordsLive_def)
      then have wm: "w \<in> set ents" "obj_id w = vehicleID r" using GetObjectById_mem by blast+
      from Cons.prems(4) have "vehicleID info \<notin> vehicleID ` set rest" by simp
      with r have "vehicleID r \<noteq> vehicleID info" by (metis imageI)
      with vm wm have "w \<noteq> v" by auto
      with vm(1) wm(1) Cons.prems(2) have "obj_name w \<noteq> obj_name v"
        by (auto simp: distinct_map dest: inj_onD)
      with w have "GetObjectById ?ents (vehicleID r) = Some w"
        unfolding GetObjectById_def removeObject_def by (intro find_filter_keep) simp_all
      then show "GetObjectById ?ents (vehicleID r) \<noteq> None" by simp
    qed
    from Cons.IH[OF d1 d2 this dr] obtain res where "despawnLoop ell a rest ?ents = Some res"
      by blast
    with v vd True show ?thesis by (cases res) auto
  qed
qed

lemma despawn_total:
  assumes "distinct (map obj_id (entities a))" and "distinct (map obj_name (entities a))"
    and "recordsLive (entities a) (spawnedV a)" and "distinct (map vehicleID (spawnedV a))"
  shows "\<exists>a' n. despawn ell t a = Some (a', n)"
proof -
  from despawnLoop_total[OF assms] obtain res where
    "despawnLoop ell a (spawnedV a) (entities a) = Some res" by blast
  then show ?thesis by (cases res) (auto simp: despawn_def)
qed


text \<open>The hypotheses of \<open>despawn_total\<close> at the scene of two vehicles used above.\<close>

theorem despawn_total_witness:
  "distinct (map obj_id (entities (ringScene [carAt 1 ''1'' 41 0, carAt 2 ''2'' 10 0] [recordOf 1 0, recordOf 2 3])))
   \<and> distinct (map obj_name (entities (ringScene [carAt 1 ''1'' 41 0, carAt 2 ''2'' 10 0] [recordOf 1 0, recordOf 2 3])))
   \<and> recordsLive (entities (ringScene [carAt 1 ''1'' 41 0, carAt 2 ''2'' 10 0] [recordOf 1 0, recordOf 2 3]))
        (spawnedV (ringScene [carAt 1 ''1'' 41 0, carAt 2 ''2'' 10 0] [recordOf 1 0, recordOf 2 3]))
   \<and> distinct (map vehicleID (spawnedV (ringScene [carAt 1 ''1'' 41 0, carAt 2 ''2'' 10 0] [recordOf 1 0, recordOf 2 3])))
   \<and> (\<exists>a' n. despawn ellipse 0 (ringScene [carAt 1 ''1'' 41 0, carAt 2 ''2'' 10 0] [recordOf 1 0, recordOf 2 3])
          = Some (a', n))"
proof -
  let ?a = "ringScene [carAt 1 ''1'' 41 0, carAt 2 ''2'' 10 0] [recordOf 1 0, recordOf 2 3]"
  have h1: "distinct (map obj_id (entities ?a))" and h2: "distinct (map obj_name (entities ?a))"
    and h3: "recordsLive (entities ?a) (spawnedV ?a)" and h4: "distinct (map vehicleID (spawnedV ?a))"
    by (simp_all add: ringScene_def carAt_def recordOf_def recordsLive_def GetObjectById_def)
  from despawn_total[OF h1 h2 h3 h4, of ellipse 0] h1 h2 h3 h4 show ?thesis by blast
qed

text \<open>The counter bound at the fifth survived evaluation.\<close>

theorem despawn_count_bounded_witness:
  "despawn ellipse 0 (ringScene [carAt 1 ''1'' 0 16] [recordOf 1 4])
     = Some (ringScene [carAt 1 ''1'' 0 16] [recordOf 1 5], 0)
   \<and> recordOf 1 5 \<in> set (spawnedV (ringScene [carAt 1 ''1'' 0 16] [recordOf 1 5]))
   \<and> outMidAreaCount (recordOf 1 5) \<le> USELESS_THRESHOLD"
proof -
  have r: "despawn ellipse 0 (ringScene [carAt 1 ''1'' 0 16] [recordOf 1 4])
     = Some (ringScene [carAt 1 ''1'' 0 16] [recordOf 1 5], 0)"
    using despawn_patience_run[of 0] by blast
  have m: "recordOf 1 5 \<in> set (spawnedV (ringScene [carAt 1 ''1'' 0 16] [recordOf 1 5]))"
    by (simp add: ringScene_def)
  from despawn_count_bounded[OF r m] r m show ?thesis by blast
qed


subsection \<open>When spawn returns\<close>

text \<open>
  The model of \<open>spawn\<close> yields \<open>None\<close> where the source would dereference a null road
  or entity, or sample more lanes than the road has. The lemmas below show that the
  sampler never asks for more lanes than a road offers and that the records stay live,
  so that none of these cases arises on a road network that resolves every point.
\<close>

lemma sample_subset: "set (fst (sample xs n g)) \<subseteq> set xs"
proof (induction xs arbitrary: n g)
  case Nil
  then show ?case by simp
next
  case (Cons x xs)
  show ?case
  proof (cases "n = 0")
    case True
    then show ?thesis by simp
  next
    case False
    obtain r g' where d: "draw g = (r, g')" by (cases "draw g")
    show ?thesis
    proof (cases "r mod Suc (length xs) < n")
      case True
      obtain ys g'' where s: "sample xs (n - 1) g' = (ys, g'')" by (cases "sample xs (n - 1) g'")
      with Cons.IH[of "n - 1" g'] have "set ys \<subseteq> set xs" by simp
      with False True d s show ?thesis by auto
    next
      case no: False
      with False d Cons.IH[of n g'] show ?thesis by auto
    qed
  qed
qed

lemma random_shuffle_set: "set (fst (random_shuffle xs g)) = set xs"
proof (induction xs arbitrary: g)
  case Nil
  then show ?case by simp
next
  case (Cons x xs)
  obtain ys g' where s: "random_shuffle xs g = (ys, g')" by (cases "random_shuffle xs g")
  obtain r g'' where d: "draw g' = (r, g'')" by (cases "draw g'")
  from Cons.IH[of g] s have ys: "set ys = set xs" by simp
  have "set (take (r mod Suc (length ys)) ys @ x # drop (r mod Suc (length ys)) ys) = insert x (set ys)"
    using set_append[of "take (r mod Suc (length ys)) ys" "drop (r mod Suc (length ys)) ys"]
    by (simp add: Un_commute insert_commute)
  with s d ys show ?case by simp
qed

lemma sampleSelected_total:
  "(\<And>pt. pt \<in> set pts \<Longrightarrow> GetRoadById odr (GetTrackId (pointPos odr pt)) \<noteq> None)
   \<Longrightarrow> \<exists>info. sampleSelected odr pts = Some info
         \<and> (\<forall>sel\<in>set info. 0 \<le> nLanes sel
               \<and> nLanes sel \<le> int (GetNumberOfDrivingLanes (road sel) (GetS (pos sel))))"
proof (induction pts)
  case Nil
  then show ?case by simp
next
  case (Cons pt pts)
  from Cons.prems[of pt] obtain rd where rd: "GetRoadById odr (GetTrackId (pointPos odr pt)) = Some rd"
    by auto
  from Cons.IH Cons.prems obtain info where
    i: "sampleSelected odr pts = Some info"
    "\<forall>sel\<in>set info. 0 \<le> nLanes sel \<and> nLanes sel \<le> int (GetNumberOfDrivingLanes (road sel) (GetS (pos sel)))"
    by auto
  with rd show ?case by auto
qed

lemma drawLanesN_fits:
  assumes "0 < nd"
  shows "0 \<le> fst (drawLanesN lanesLeft nd g) \<and> 1 + fst (drawLanesN lanesLeft nd g) \<le> nd"
proof (cases "0 < lanesLeft")
  case True
  from drawLanesN_range[OF True assms, of g] show ?thesis by simp
next
  case False
  with assms show ?thesis by (simp add: drawLanesN_def)
qed

lemma sampleAll_total:
  "(\<And>pt. pt \<in> set pts \<Longrightarrow> GetRoadById odr (GetTrackId (pointPos odr pt)) \<noteq> None)
   \<Longrightarrow> \<exists>info left g'. sampleAll odr lanesLeft pts g = Some (info, left, g')
         \<and> (\<forall>sel\<in>set info. 0 \<le> nLanes sel
               \<and> nLanes sel \<le> int (GetNumberOfDrivingLanes (road sel) (GetS (pos sel))))"
proof (induction pts arbitrary: lanesLeft g)
  case Nil
  then show ?case by simp
next
  case (Cons pt pts)
  from Cons.prems[of pt] obtain rd where rd: "GetRoadById odr (GetTrackId (pointPos odr pt)) = Some rd"
    by auto
  let ?nd = "int (GetNumberOfDrivingLanes rd (GetS (pointPos odr pt)))"
  show ?case
  proof (cases "?nd = 0")
    case True
    from Cons.IH[of "lanesLeft + 1" g] Cons.prems obtain info left g' where
      "sampleAll odr (lanesLeft + 1) pts g = Some (info, left, g')"
      "\<forall>sel\<in>set info. 0 \<le> nLanes sel \<and> nLanes sel \<le> int (GetNumberOfDrivingLanes (road sel) (GetS (pos sel)))"
      by auto
    with rd True show ?thesis by auto
  next
    case False
    then have nd: "0 < ?nd" by simp
    obtain lanesN g1 where dl: "drawLanesN lanesLeft ?nd g = (lanesN, g1)"
      by (cases "drawLanesN lanesLeft ?nd g")
    from drawLanesN_fits[OF nd, of lanesLeft g] dl have b: "0 \<le> lanesN \<and> 1 + lanesN \<le> ?nd" by simp
    from Cons.IH[of "lanesLeft - lanesN" g1] Cons.prems obtain info left g' where
      "sampleAll odr (lanesLeft - lanesN) pts g1 = Some (info, left, g')"
      "\<forall>sel\<in>set info. 0 \<le> nLanes sel \<and> nLanes sel \<le> int (GetNumberOfDrivingLanes (road sel) (GetS (pos sel)))"
      by auto
    with rd False dl b show ?thesis by auto
  qed
qed

lemma sampleRoads_total:
  assumes "\<And>pt. pt \<in> set sols \<Longrightarrow> GetRoadById odr (GetTrackId (pointPos odr pt)) \<noteq> None"
  shows "\<exists>info g'. sampleRoads odr minN maxN sols [] g = Some (info, g')
         \<and> (\<forall>sel\<in>set info. 0 \<le> nLanes sel
               \<and> nLanes sel \<le> int (GetNumberOfDrivingLanes (road sel) (GetS (pos sel))))"
proof (cases "maxN < minN")
  case True
  then show ?thesis by (simp add: sampleRoads_def)
next
  case range: False
  let ?n = "nCarsToSpawn minN maxN g"
  let ?g1 = "snd (uniform_int_distribution minN maxN g)"
  show ?thesis
  proof (cases "?n \<le> int (length sols) \<and> ?n > 0")
    case True
    obtain shuffled g2 where sh: "random_shuffle sols ?g1 = (shuffled, g2)"
      by (cases "random_shuffle sols ?g1")
    obtain selected g3 where se: "sample shuffled (nat ?n) g2 = (selected, g3)"
      by (cases "sample shuffled (nat ?n) g2")
    from random_shuffle_set[of sols ?g1] sh have "set shuffled = set sols" by simp
    with sample_subset[of shuffled "nat ?n" g2] se have "set selected \<subseteq> set sols" by simp
    with assms have "\<And>pt. pt \<in> set selected \<Longrightarrow> GetRoadById odr (GetTrackId (pointPos odr pt)) \<noteq> None"
      by blast
    from sampleSelected_total[OF this] obtain info where
      "sampleSelected odr selected = Some info"
      "\<forall>sel\<in>set info. 0 \<le> nLanes sel \<and> nLanes sel \<le> int (GetNumberOfDrivingLanes (road sel) (GetS (pos sel)))"
      by blast
    with range True sh se show ?thesis by (simp add: sampleRoads_def)
  next
    case False
    from sampleAll_total[OF assms, of sols "?n - int (length sols)" ?g1] obtain info left g' where
      "sampleAll odr (?n - int (length sols)) sols ?g1 = Some (info, left, g')"
      "\<forall>sel\<in>set info. 0 \<le> nLanes sel \<and> nLanes sel \<le> int (GetNumberOfDrivingLanes (road sel) (GetS (pos sel)))"
      by blast
    with range False show ?thesis by (auto simp: sampleRoads_def)
  qed
qed

lemma ensureDistanceLoop_total:
  "recordsLive ents rs \<Longrightarrow> \<exists>b. ensureDistanceLoop ents rs p laneID = Some b"
  by (induction rs) (auto simp: recordsLive_def)

lemma spawnLane_total:
  assumes "recordsLive (entities a) (spawnedV a)"
  shows "\<exists>a'. spawnLane odr t sel laneIdx a = Some a' \<and> recordsLive (entities a') (spawnedV a')"
proof (cases "GetDrivingLaneByIdx (road sel) (GetS (pos sel)) laneIdx")
  case None
  with assms show ?thesis by (simp add: spawnLane_def)
next
  case (Some laneID)
  from ensureDistanceLoop_total[OF assms, of "pos sel" laneID] obtain ok where
    ok: "ensureDistance a (pos sel) laneID = Some ok" by (auto simp: ensureDistance_def)
  show ?thesis
  proof (cases ok)
    case False
    with Some ok assms show ?thesis by (simp add: spawnLane_def)
  next
    case True
    let ?ents = "entities a" and ?rs = "spawnedV a"
    let ?car = "createVehicle odr (pos sel) (if laneID < 0 then 0 else 1) laneID (velocity a) ''car_red.osgb''"
    let ?i = "getNewId ?ents"
    let ?ents' = "setName (snd (addObject ?ents ?car)) (fst (addObject ?ents ?car)) (to_string ?i)"
    let ?new = "\<lparr>vehicleID = ?i, outMidAreaCount = 0, roadID = GetTrackId (pos sel),
                  lane = laneID, spawnSimTime = t\<rparr>"
    have fst_add: "fst (addObject ?ents ?car) = ?i" by (simp add: addObject_def Let_def)
    from Some ok True have a': "spawnLane odr t sel laneIdx a
        = Some (a\<lparr>entities := ?ents', spawnedV := ?rs @ [?new]\<rparr>)"
      by (simp add: spawnLane_def addObject_def Let_def)
    have old: "GetObjectById ?ents' (vehicleID r) = GetObjectById ?ents (vehicleID r)"
      if "r \<in> set ?rs" for r
      using live_not_new[OF assms that] by (rule GetObjectById_other)
    have "recordsLive ?ents' (?rs @ [?new])"
      using assms old GetObjectById_added[of ?ents ?car "to_string ?i"]
      by (auto simp: recordsLive_def fst_add)
    with a' show ?thesis by simp
  qed
qed

lemma spawnLanes_total:
  "recordsLive (entities a) (spawnedV a)
     \<Longrightarrow> \<exists>a'. spawnLanes odr t sel lanes a = Some a' \<and> recordsLive (entities a') (spawnedV a')"
proof (induction lanes arbitrary: a)
  case Nil
  then show ?case by simp
next
  case (Cons laneIdx rest)
  from spawnLane_total[OF Cons.prems, of odr t sel laneIdx] obtain a1 where
    "spawnLane odr t sel laneIdx a = Some a1" "recordsLive (entities a1) (spawnedV a1)" by blast
  with Cons.IH[of a1] show ?case by simp
qed

lemma spawnAll_total:
  "recordsLive (entities a) (spawnedV a)
   \<Longrightarrow> (\<And>sel. sel \<in> set info \<Longrightarrow> 0 \<le> nLanes sel
          \<and> nLanes sel \<le> int (GetNumberOfDrivingLanes (road sel) (GetS (pos sel))))
   \<Longrightarrow> \<exists>a' g'. spawnAll odr t info a g = Some (a', g') \<and> recordsLive (entities a') (spawnedV a')"
proof (induction info arbitrary: a g)
  case Nil
  then show ?case by simp
next
  case (Cons sel rest)
  let ?n = "GetNumberOfDrivingLanes (road sel) (GetS (pos sel))"
  from Cons.prems(2)[of sel] have ok: "\<not> (nLanes sel < 0 \<or> int ?n < nLanes sel)" by auto
  obtain lanes g1 where sa: "sample (map int [0..<?n]) (nat (nLanes sel)) g = (lanes, g1)"
    by (cases "sample (map int [0..<?n]) (nat (nLanes sel)) g")
  from spawnLanes_total[OF Cons.prems(1), of odr t sel lanes] obtain a1 where
    a1: "spawnLanes odr t sel lanes a = Some a1" "recordsLive (entities a1) (spawnedV a1)" by blast
  from Cons.IH[OF a1(2), of g1] Cons.prems(2) obtain a' g' where
    "spawnAll odr t rest a1 g1 = Some (a', g')" "recordsLive (entities a') (spawnedV a')" by auto
  with ok sa a1 show ?case by auto
qed

text \<open>
  \<open>spawn\<close> returns, and keeps every record attached to a live entity, as soon as each
  solution point is resolved by the road network to a road it knows and the records it
  starts from are live: no null road, no lane count out of range and no missing entity is
  met on the way.
\<close>

lemma spawn_total:
  assumes "recordsLive (entities a) (spawnedV a)"
    and "\<forall>pt\<in>set sols. GetRoadById odr (GetTrackId (pointPos odr pt)) \<noteq> None"
  shows "\<exists>a' g'. spawn odr sols replace t a g = Some (a', g') \<and> recordsLive (entities a') (spawnedV a')"
proof (cases "numberOfVehicles a - int (length (spawnedV a)) \<le> 0")
  case True
  with assms(1) show ?thesis by (simp add: spawn_def)
next
  case False
  from assms(2) have roads: "\<And>pt. pt \<in> set sols \<Longrightarrow> GetRoadById odr (GetTrackId (pointPos odr pt)) \<noteq> None"
    by blast
  from sampleRoads_total[OF roads, where minN = replace
      and maxN = "numberOfVehicles a - int (length (spawnedV a))" and g = g]
  obtain info g1 where
    sr: "sampleRoads odr replace (numberOfVehicles a - int (length (spawnedV a))) sols [] g = Some (info, g1)"
    and fit: "\<forall>sel\<in>set info. 0 \<le> nLanes sel
               \<and> nLanes sel \<le> int (GetNumberOfDrivingLanes (road sel) (GetS (pos sel)))"
    by blast
  from spawnAll_total[OF assms(1), of info odr t g1] fit obtain a' g' where
    "spawnAll odr t info a g1 = Some (a', g')" "recordsLive (entities a') (spawnedV a')" by blast
  with False sr show ?thesis by (simp add: spawn_def)
qed


text \<open>The hypotheses of \<open>spawn_total\<close> at the two points of the straight road.\<close>

theorem spawn_total_witness:
  "recordsLive (entities (ringScene [] [])) (spawnedV (ringScene [] []))
   \<and> GetRoadById straightNet (GetTrackId (pointPos straightNet (solAt 10))) \<noteq> None
   \<and> GetRoadById straightNet (GetTrackId (pointPos straightNet (solAt 90))) \<noteq> None
   \<and> (\<exists>a' g'. spawn straightNet [solAt 10, solAt 90] 0 0 (ringScene [] []) [2] = Some (a', g')
         \<and> recordsLive (entities a') (spawnedV a'))"
proof -
  have h1: "recordsLive (entities (ringScene [] [])) (spawnedV (ringScene [] []))"
    by (simp add: ringScene_def recordsLive_def)
  have r1: "GetRoadById straightNet (GetTrackId (pointPos straightNet (solAt 10))) \<noteq> None"
    and r2: "GetRoadById straightNet (GetTrackId (pointPos straightNet (solAt 90))) \<noteq> None"
    by (simp_all add: road_defs)
  then have h2: "\<forall>pt\<in>set [solAt 10, solAt 90].
      GetRoadById straightNet (GetTrackId (pointPos straightNet pt)) \<noteq> None"
    by simp
  from spawn_total[OF h1 h2, of 0 0 "[2]"] h1 r1 r2 show ?thesis by blast
qed

subsection \<open>The target count and what is selected for it\<close>












end
